(* ===== verification/Harness_Prelude.thy ===== *)
theory Harness_Prelude
  imports Main "HOL-Library.Word"
begin

text \<open>
  The vocabulary every component of the development shares: Rust's fixed-width integers, the
  outcome of a fallible call, the two build profiles that differ in what an overflowing \<open>+\<close>
  does, and generic facts on lists and words.

  A call of the source has one of three outcomes: it returns a value (\<open>Ok\<close>), it returns an
  error (\<open>Err\<close>), or it panics (\<open>Panic\<close>, with the panic message). Keeping the panic apart
  from the error makes ``this \<^verbatim>\<open>expect\<close> never fires'' a statement one can prove.
\<close>

section \<open>Machine integers and outcomes\<close>

type_synonym u8 = "8 word"
type_synonym u16 = "16 word"
type_synonym u32 = "32 word"
type_synonym u64 = "64 word"
type_synonym bytes = "8 word list"

datatype ('a, 'e) outcome = Ok 'a | Err 'e | Panic string

text \<open>A debug build panics when \<open>+\<close> overflows, a release build wraps around.\<close>

datatype profile = Debug | Release

text \<open>The development's collection of facts that a call does not panic.\<close>

named_theorems panic_free

section \<open>Outcomes\<close>

fun is_panic :: "('a, 'e) outcome \<Rightarrow> bool" where
  "is_panic (Panic m) = True"
| "is_panic _ = False"

fun is_ok :: "('a, 'e) outcome \<Rightarrow> bool" where
  "is_ok (Ok a) = True"
| "is_ok _ = False"

lemma is_ok_iff: "is_ok r \<longleftrightarrow> (\<exists>a. r = Ok a)"
  by (cases r) auto

lemma is_panic_iff: "is_panic r \<longleftrightarrow> (\<exists>m. r = Panic m)"
  by (cases r) auto

text \<open>\<open>Result::map_err\<close>: the error is rewritten, a value or a panic passes through.\<close>

fun map_err :: "('e \<Rightarrow> 'f) \<Rightarrow> ('a, 'e) outcome \<Rightarrow> ('a, 'f) outcome" where
  "map_err f (Ok a) = Ok a"
| "map_err f (Err e) = Err (f e)"
| "map_err f (Panic m) = Panic m"

lemma map_err_eq_Ok [simp]: "map_err f r = Ok a \<longleftrightarrow> r = Ok a"
  by (cases r) auto

lemma map_err_eq_Panic [simp]: "map_err f r = Panic m \<longleftrightarrow> r = Panic m"
  by (cases r) auto

section \<open>Lists\<close>

lemma takeWhile_append_sep [simp]:
  "\<forall>x \<in> set xs. P x \<Longrightarrow> \<not> P y \<Longrightarrow> takeWhile P (xs @ y # ys) = xs"
  by (induction xs) auto

lemma dropWhile_append_sep [simp]:
  "\<forall>x \<in> set xs. P x \<Longrightarrow> \<not> P y \<Longrightarrow> dropWhile P (xs @ y # ys) = y # ys"
  by (induction xs) auto

section \<open>Words\<close>

text \<open>Addition that stays in range agrees with addition of naturals.\<close>

lemma take_into_second: "j \<le> length ys \<Longrightarrow> take (length xs + j) (xs @ ys @ zs) = xs @ take j ys"
  by simp

lemma unat_add_no_wrap:
  fixes a b :: "'a :: len word"
  assumes "unat a + unat b < 2 ^ LENGTH('a)"
  shows "unat (a + b) = unat a + unat b"
  using assms by (simp add: unat_word_ariths)

lemma unat_u64_lt: "unat (x :: u64) < 18446744073709551616"
  using unsigned_less [of x] by simp

lemma unat_u32_lt: "unat (x :: u32) < 4294967296"
  using unsigned_less [of x] by simp

lemma unat_u8_lt: "unat (x :: u8) < 256"
  using unsigned_less [of x] by simp

lemma unat_of_nat_u64: "n < 2 ^ 64 \<Longrightarrow> unat (of_nat n :: u64) = n"
  by (simp add: unsigned_of_nat take_bit_nat_eq_self_iff)

lemma unat_ucast_32_64 [simp]: "unat (ucast (n :: u32) :: u64) = unat n"
  using unat_u32_lt [of n] by (simp add: unsigned_ucast_eq take_bit_nat_eq_self_iff)

end
