(* ===== verification/Rust_Std.thy ===== *)
theory Rust_Std
  imports Harness_Prelude
begin

text \<open>
  What the source uses of Rust's standard library on bytes, strings and numbers, written out as
  executable functions: \<^verbatim>\<open>Iterator::position\<close>, \<^verbatim>\<open>slice::split\<close>, \<^verbatim>\<open>starts_with\<close>,
  \<^verbatim>\<open>str::from_utf8\<close>, \<^verbatim>\<open>FromStr\<close> for unsigned integers, decimal formatting with and
  without zero padding, and \<^verbatim>\<open>usize\<close> addition in both build profiles. The facts proved here
  are the ones parsing and re-encoding rest on: how splitting and searching behave on a
  concatenation, and that formatting a number and parsing it back gives the number.
\<close>

section \<open>Definitions\<close>

text \<open>A Rust string is UTF-8; the model keeps it as the list of its bytes, as a HOL \<open>string\<close>.
  \<open>str_bytes\<close> is \<^verbatim>\<open>as_bytes\<close>, also used for byte-string literals.\<close>

definition str_bytes :: "string \<Rightarrow> bytes" where
  "str_bytes s = map of_char s"

fun position :: "('a \<Rightarrow> bool) \<Rightarrow> 'a list \<Rightarrow> nat option" where
  "position P [] = None"
| "position P (x # xs) = (if P x then Some 0 else map_option Suc (position P xs))"

text \<open>\<^verbatim>\<open>slice::split\<close>: one piece more than there are separators, the pieces may be empty.\<close>

fun split_on :: "('a \<Rightarrow> bool) \<Rightarrow> 'a list \<Rightarrow> 'a list list" where
  "split_on P [] = [[]]"
| "split_on P (x # xs) =
     (if P x then [] # split_on P xs
      else (case split_on P xs of [] \<Rightarrow> [[x]] | y # ys \<Rightarrow> (x # y) # ys))"

definition starts_with :: "'a list \<Rightarrow> 'a list \<Rightarrow> bool" where
  "starts_with xs p \<longleftrightarrow> take (length p) xs = p"

text \<open>\<^verbatim>\<open>str::from_utf8\<close>: the well-formed byte sequences of the Unicode standard.\<close>

definition utf8_cont :: "u8 \<Rightarrow> bool" where
  "utf8_cont b \<longleftrightarrow> 0x80 \<le> b \<and> b \<le> 0xBF"

text \<open>The length of the sequence a byte starts, 0 if it starts none, and the bytes that may come second.\<close>

definition utf8_width :: "u8 \<Rightarrow> nat" where
  "utf8_width b =
     (if b < 0x80 then 1
      else if 0xC2 \<le> b \<and> b \<le> 0xDF then 2
      else if 0xE0 \<le> b \<and> b \<le> 0xEF then 3
      else if 0xF0 \<le> b \<and> b \<le> 0xF4 then 4
      else 0)"

definition utf8_second :: "u8 \<Rightarrow> u8 \<Rightarrow> bool" where
  "utf8_second b c \<longleftrightarrow>
     (if b = 0xE0 then 0xA0 \<le> c \<and> c \<le> 0xBF
      else if b = 0xED then 0x80 \<le> c \<and> c \<le> 0x9F
      else if b = 0xF0 then 0x90 \<le> c \<and> c \<le> 0xBF
      else if b = 0xF4 then 0x80 \<le> c \<and> c \<le> 0x8F
      else utf8_cont c)"

fun utf8_valid :: "bytes \<Rightarrow> bool" where
  "utf8_valid [] = True"
| "utf8_valid (b # bs) =
     (if utf8_width b = 1 then utf8_valid bs
      else if utf8_width b = 2 then
        (case bs of c1 # r \<Rightarrow> utf8_second b c1 \<and> utf8_valid r | _ \<Rightarrow> False)
      else if utf8_width b = 3 then
        (case bs of c1 # c2 # r \<Rightarrow> utf8_second b c1 \<and> utf8_cont c2 \<and> utf8_valid r | _ \<Rightarrow> False)
      else if utf8_width b = 4 then
        (case bs of c1 # c2 # c3 # r \<Rightarrow>
           utf8_second b c1 \<and> utf8_cont c2 \<and> utf8_cont c3 \<and> utf8_valid r
         | _ \<Rightarrow> False)
      else False)"

definition from_utf8 :: "bytes \<Rightarrow> bytes option" where
  "from_utf8 bs = (if utf8_valid bs then Some bs else None)"

text \<open>
  \<^verbatim>\<open>FromStr\<close> of an unsigned type of \<open>w\<close> bits: an empty string and a lone sign are errors, one
  leading \<open>+\<close> is accepted, every other byte must be a decimal digit, and a value that does not
  fit is an error. A leading \<open>-\<close> is no digit, so it is refused.
\<close>

definition is_digit :: "u8 \<Rightarrow> bool" where
  "is_digit b \<longleftrightarrow> 0x30 \<le> b \<and> b \<le> 0x39"

fun parse_digits :: "nat \<Rightarrow> nat \<Rightarrow> bytes \<Rightarrow> nat option" where
  "parse_digits w acc [] = Some acc"
| "parse_digits w acc (b # bs) =
     (if \<not> is_digit b then None
      else let acc' = 10 * acc + unat (b - 0x30)
           in if acc' < 2 ^ w then parse_digits w acc' bs else None)"

definition parse_unsigned :: "nat \<Rightarrow> bytes \<Rightarrow> nat option" where
  "parse_unsigned w bs =
     (case bs of
        [] \<Rightarrow> None
      | b # r \<Rightarrow> if b = 0x2B then (if r = [] then None else parse_digits w 0 r)
                 else parse_digits w 0 bs)"

text \<open>Decimal formatting: \<^verbatim>\<open>{}\<close> and \<^verbatim>\<open>{:03}\<close>.\<close>

fun dec_digits :: "nat \<Rightarrow> nat list" where
  "dec_digits n = (if n < 10 then [n] else dec_digits (n div 10) @ [n mod 10])"

declare dec_digits.simps [simp del]

definition digit_byte :: "nat \<Rightarrow> u8" where
  "digit_byte d = of_nat (48 + d)"

definition dec_bytes :: "nat \<Rightarrow> bytes" where
  "dec_bytes n = map digit_byte (dec_digits n)"

definition dec_string :: "nat \<Rightarrow> string" where
  "dec_string n = map (\<lambda>d. char_of (48 + d)) (dec_digits n)"

definition dec3_bytes :: "nat \<Rightarrow> bytes" where
  "dec3_bytes n = (let ds = dec_bytes n in replicate (3 - length ds) 0x30 @ ds)"

text \<open>\<^verbatim>\<open>usize\<close> is 64 bits wide on both supported targets (x86_64 and aarch64).\<close>

definition usize_add :: "profile \<Rightarrow> nat \<Rightarrow> nat \<Rightarrow> (nat, 'e) outcome" where
  "usize_add p a b =
     (if a + b < 2 ^ 64 then Ok (a + b)
      else case p of
        Debug \<Rightarrow> Panic ''attempt to add with overflow''
      | Release \<Rightarrow> Ok ((a + b) mod 2 ^ 64))"

section \<open>Searching and splitting\<close>

lemma position_None_iff [simp]: "position P xs = None \<longleftrightarrow> (\<forall>x \<in> set xs. \<not> P x)"
  by (induction xs) auto

lemma position_SomeD:
  "position P xs = Some i \<Longrightarrow> i < length xs \<and> P (xs ! i) \<and> (\<forall>x \<in> set (take i xs). \<not> P x)"
  by (induction xs arbitrary: i) (auto split: if_splits)

lemma position_append_Some [simp]: "position P xs = Some i \<Longrightarrow> position P (xs @ ys) = Some i"
  by (induction xs arbitrary: i) (auto split: if_splits)

lemma position_append_first:
  "\<forall>x \<in> set xs. \<not> P x \<Longrightarrow> P y \<Longrightarrow> position P (xs @ y # ys) = Some (length xs)"
  by (induction xs) auto

lemma position_Some_split:
  assumes "position P xs = Some i"
  shows "xs = take i xs @ xs ! i # drop (Suc i) xs"
  using position_SomeD [OF assms] by (simp add: id_take_nth_drop)

lemma split_on_nonempty [simp]: "split_on P xs \<noteq> []"
  by (induction xs) (auto split: list.splits)

lemma split_on_no_sep: "\<forall>x \<in> set xs. \<not> P x \<Longrightarrow> split_on P xs = [xs]"
  by (induction xs) auto

lemma split_on_append:
  "\<forall>x \<in> set xs. \<not> P x \<Longrightarrow> P y \<Longrightarrow> split_on P (xs @ y # ys) = xs # split_on P ys"
  by (induction xs) auto

lemma split_on_first: "split_on P xs = takeWhile (\<lambda>x. \<not> P x) xs # tl (split_on P xs)"
  by (induction xs) (auto split: list.split)

lemma split_on_pieces: "f \<in> set (split_on P xs) \<Longrightarrow> \<forall>x \<in> set f. \<not> P x"
proof (induction xs arbitrary: f)
  case (Cons x xs)
  show ?case
  proof (cases "P x")
    case True
    with Cons show ?thesis by auto
  next
    case False
    obtain y ys where s: "split_on P xs = y # ys"
      by (cases "split_on P xs") auto
    have y: "\<forall>z \<in> set y. \<not> P z" and ys: "\<And>g. g \<in> set ys \<Longrightarrow> \<forall>z \<in> set g. \<not> P z"
      using Cons.IH s by auto
    show ?thesis
      using Cons.prems False s y ys by auto
  qed
qed simp

lemma starts_with_append [simp]: "starts_with xs p \<Longrightarrow> starts_with (xs @ ys) p"
  by (simp add: starts_with_def) (metis length_take min.absorb_iff2 min.commute)

lemma starts_with_self [simp]: "starts_with (p @ xs) p"
  by (simp add: starts_with_def)

lemma starts_with_iff: "starts_with xs p \<longleftrightarrow> (\<exists>ys. xs = p @ ys)"
  unfolding starts_with_def by (metis append_eq_conv_conj append_take_drop_id)

lemma not_starts_with_append:
  "length p \<le> length xs \<Longrightarrow> \<not> starts_with xs p \<Longrightarrow> \<not> starts_with (xs @ ys) p"
  by (simp add: starts_with_def)

section \<open>Numbers\<close>

lemma dec_digits_lt: "d \<in> set (dec_digits n) \<Longrightarrow> d < 10"
proof (induction n rule: dec_digits.induct)
  case (1 n)
  then show ?case
    by (subst (asm) (2) dec_digits.simps) (auto split: if_splits)
qed

lemma dec_digits_nonempty [simp]: "dec_digits n \<noteq> []"
  by (subst dec_digits.simps) simp

lemma dec_bytes_nonempty [simp]: "dec_bytes n \<noteq> []"
  by (simp add: dec_bytes_def)

lemma digit_byte_props:
  assumes "d < 10"
  shows "is_digit (digit_byte d)" "unat (digit_byte d - 0x30) = d" "digit_byte d \<noteq> 1"
    "digit_byte d \<noteq> 0x3D" "digit_byte d \<noteq> 0x2B" "digit_byte d < 0x80"
proof -
  have "d \<in> {0, 1, 2, 3, 4, 5, 6, 7, 8, 9}" using assms by auto
  then show "is_digit (digit_byte d)" "unat (digit_byte d - 0x30) = d" "digit_byte d \<noteq> 1"
    "digit_byte d \<noteq> 0x3D" "digit_byte d \<noteq> 0x2B" "digit_byte d < 0x80"
    by (auto simp: is_digit_def digit_byte_def)
qed

lemma dec_bytes_digits: "b \<in> set (dec_bytes n) \<Longrightarrow> is_digit b \<and> b \<noteq> 1 \<and> b \<noteq> 0x3D \<and> b \<noteq> 0x2B"
  by (auto simp: dec_bytes_def dest!: dec_digits_lt dest: digit_byte_props)

lemma parse_digits_append:
  "parse_digits w acc (xs @ ys) =
     (case parse_digits w acc xs of None \<Rightarrow> None | Some a \<Rightarrow> parse_digits w a ys)"
  by (induction xs arbitrary: acc) (auto simp: Let_def)

lemma parse_digits_dec: "n < 2 ^ w \<Longrightarrow> parse_digits w 0 (dec_bytes n) = Some n"
proof (induction n rule: dec_digits.induct)
  case (1 n)
  show ?case
  proof (cases "n < 10")
    case True
    then show ?thesis
      using 1(2) digit_byte_props [of n]
      by (simp add: dec_bytes_def dec_digits.simps [of n])
  next
    case False
    have split: "dec_bytes n = dec_bytes (n div 10) @ [digit_byte (n mod 10)]"
      using False by (simp add: dec_bytes_def dec_digits.simps [of n])
    have "n div 10 < 2 ^ w"
      using 1(2) by (meson div_le_dividend order_le_less_trans)
    then have IH: "parse_digits w 0 (dec_bytes (n div 10)) = Some (n div 10)"
      using 1(1) False by blast
    have "n mod 10 < 10" by simp
    then show ?thesis
      using 1(2) digit_byte_props [of "n mod 10"]
      by (simp add: split parse_digits_append IH mult.commute [of 10])
  qed
qed

lemma parse_unsigned_dec: "n < 2 ^ w \<Longrightarrow> parse_unsigned w (dec_bytes n) = Some n"
  using parse_digits_dec [of n w] dec_bytes_digits [of _ n]
  by (cases "dec_bytes n") (auto simp: parse_unsigned_def)

lemma parse_digits_bound: "parse_digits w acc bs = Some n \<Longrightarrow> acc < 2 ^ w \<Longrightarrow> n < 2 ^ w"
  by (induction bs arbitrary: acc) (auto simp: Let_def split: if_splits)

lemma parse_unsigned_bound: "parse_unsigned w bs = Some n \<Longrightarrow> n < 2 ^ w"
  by (auto simp: parse_unsigned_def simp del: parse_digits.simps split: list.splits if_splits
      intro: parse_digits_bound [where acc = 0])

text \<open>
  Validating UTF-8 first changes nothing: what parses as a number is ASCII, and both failures are
  reported as the same error by every caller.
\<close>

lemma utf8_width_ascii [simp]: "b < 0x80 \<Longrightarrow> utf8_width b = 1"
  by (simp add: utf8_width_def)

lemma utf8_valid_ascii: "\<forall>b \<in> set bs. b < 0x80 \<Longrightarrow> utf8_valid bs"
  by (induction bs) simp_all

lemma parse_digits_ascii: "parse_digits w acc bs = Some n \<Longrightarrow> \<forall>b \<in> set bs. b < 0x80"
proof (induction bs arbitrary: acc)
  case (Cons b bs)
  have "is_digit b \<Longrightarrow> b < 0x80"
    by (simp add: is_digit_def word_le_nat_alt word_less_nat_alt)
  with Cons show ?case
    by (auto simp: Let_def split: if_splits)
qed simp

lemma parse_unsigned_ascii: "parse_unsigned w bs = Some n \<Longrightarrow> \<forall>b \<in> set bs. b < 0x80"
  by (auto simp: parse_unsigned_def simp del: parse_digits.simps split: list.splits if_splits
      dest: parse_digits_ascii)

lemma parse_unsigned_utf8: "parse_unsigned w bs = Some n \<Longrightarrow> from_utf8 bs = Some bs"
  by (simp add: from_utf8_def utf8_valid_ascii parse_unsigned_ascii)

lemma from_utf8_SomeD [simp]: "from_utf8 bs = Some cs \<Longrightarrow> cs = bs"
  by (simp add: from_utf8_def split: if_splits)

lemma length_dec3 [simp]: "n < 256 \<Longrightarrow> length (dec3_bytes n) = 3"
proof -
  assume n: "n < 256"
  have "length (dec_digits n) \<le> 3"
    using n by (simp add: dec_digits.simps [of n] dec_digits.simps [of "n div 10"]
        dec_digits.simps [of "n div 10 div 10"])
  then show ?thesis
    by (simp add: dec3_bytes_def Let_def dec_bytes_def)
qed

lemma dec3_bytes_digits: "b \<in> set (dec3_bytes n) \<Longrightarrow> is_digit b \<and> b \<noteq> 1 \<and> b \<noteq> 0x3D"
  by (auto simp: dec3_bytes_def Let_def is_digit_def dest: dec_bytes_digits split: if_splits)

lemma usize_add_exact [simp]: "a + b < 2 ^ 64 \<Longrightarrow> usize_add p a b = Ok (a + b)"
  by (simp add: usize_add_def)

end
