(* ===== verification/Core_Types.thy ===== *)
theory Core_Types
  imports Rust_Std
begin

text \<open>
  The crate \<^verbatim>\<open>blackswan-core\<close>: errors, clocks, scenarios, the message types of the adapter
  layer, and the two traits everything else implements. A trait is a record of operations (its
  vtable) plus a locale with the laws its implementations keep: \<open>fault_injector\<close> for
  \<^verbatim>\<open>FaultInjector\<close> here, \<open>protocol_adapter\<close> for \<^verbatim>\<open>ProtocolAdapter\<close> in \<open>Fix_Adapter\<close>,
  where framing is known. An operation that touches the outside world takes the world and returns
  it updated, next to the outcome and the updated object.
\<close>

section \<open>Errors\<close>

text \<open>\<^verbatim>\<open>std::io::Error\<close> is kept as its rendered text.\<close>

datatype harness_error =
    ArmFailed string string
  | DisarmFailed string string
  | AdapterRejected string string
  | InvalidScenario string
  | Io string

fun harness_error_display :: "harness_error \<Rightarrow> string" where
  "harness_error_display (ArmFailed a b) = ''fault injector '' @ a @ '' failed to arm: '' @ b"
| "harness_error_display (DisarmFailed a b) = ''fault injector '' @ a @ '' failed to disarm: '' @ b"
| "harness_error_display (AdapterRejected a b) = ''adapter '' @ a @ '' rejected message: '' @ b"
| "harness_error_display (InvalidScenario a) = ''scenario config invalid: '' @ a"
| "harness_error_display (Io a) = ''io error: '' @ a"

section \<open>Clocks\<close>

text \<open>
  \<open>SystemClock_now_ns\<close> takes the operating system's time as a signed number of nanoseconds since
  the Unix epoch; the cast to \<^verbatim>\<open>u64\<close> truncates.
\<close>

definition SystemClock_now_ns :: "int \<Rightarrow> (u64, 'e) outcome" where
  "SystemClock_now_ns os_ns =
     (if os_ns < 0 then Panic ''system clock before unix epoch'' else Ok (word_of_int os_ns))"

record virtual_clock =
  clock_ns :: u64

definition VirtualClock_new :: "u64 \<Rightarrow> virtual_clock" where
  "VirtualClock_new start_ns = \<lparr>clock_ns = start_ns\<rparr>"

text \<open>\<^verbatim>\<open>AtomicU64::fetch_add\<close> wraps around in every profile.\<close>

definition VirtualClock_advance :: "virtual_clock \<Rightarrow> u64 \<Rightarrow> virtual_clock" where
  "VirtualClock_advance c delta_ns = c\<lparr>clock_ns := clock_ns c + delta_ns\<rparr>"

definition VirtualClock_now_ns :: "virtual_clock \<Rightarrow> u64" where
  "VirtualClock_now_ns c = clock_ns c"

datatype clock = SystemClock | VirtualClock virtual_clock

section \<open>Scenarios\<close>

datatype step_action = Arm | Disarm

record scenario_step =
  at_ns :: u64
  fault_id :: string
  action :: step_action

record scenario =
  name :: string
  seed :: u64
  steps :: "scenario_step list"

section \<open>Adapter boundary\<close>

datatype direction = Inbound | Outbound

record raw_message =
  msg_bytes :: bytes
  msg_direction :: direction

datatype intercept_action = Forward | Drop | Mutate bytes | Delay u64

text \<open>The vtable of \<^verbatim>\<open>ProtocolAdapter\<close>. An adapter may hold interior-mutable state, so
  \<open>op_intercept\<close> returns the adapter too.\<close>

record 'a adapter_ops =
  op_name :: "'a \<Rightarrow> string"
  op_intercept :: "'a \<Rightarrow> raw_message \<Rightarrow> (intercept_action, harness_error) outcome \<times> 'a"

section \<open>Fault injectors\<close>

record fault_context =
  ctx_clock :: clock
  ctx_seed :: u64

type_synonym ('i, 'w) fault_call = "'i \<Rightarrow> 'w \<Rightarrow> (unit, harness_error) outcome \<times> 'i \<times> 'w"

text \<open>The vtable of \<^verbatim>\<open>FaultInjector\<close>, over the injector's own state and the world.\<close>

record ('i, 'w) injector_ops =
  op_id :: "'i \<Rightarrow> string"
  op_arm :: "fault_context \<Rightarrow> ('i, 'w) fault_call"
  op_disarm :: "('i, 'w) fault_call"
  op_is_armed :: "'i \<Rightarrow> bool"

text \<open>
  The contract the trait's comments promise, as the part of it every injector keeps: arming sets
  the flag and a failed arm leaves it alone; disarming clears it and never sets it; neither panics
  nor changes the id.
\<close>

locale fault_injector =
  fixes ops :: "('i, 'w) injector_ops"
  assumes arm_ok: "op_arm ops c i w = (Ok u, i', w') \<Longrightarrow> op_is_armed ops i'"
    and arm_err: "op_arm ops c i w = (Err e, i', w') \<Longrightarrow> op_is_armed ops i' = op_is_armed ops i"
    and arm_panic: "op_arm ops c i w \<noteq> (Panic m, i', w')"
    and arm_id: "op_arm ops c i w = (r, i', w') \<Longrightarrow> op_id ops i' = op_id ops i"
    and disarm_ok: "op_disarm ops i w = (Ok u, i', w') \<Longrightarrow> \<not> op_is_armed ops i'"
    and disarm_err: "op_disarm ops i w = (Err e, i', w') \<Longrightarrow> op_is_armed ops i' \<Longrightarrow> op_is_armed ops i"
    and disarm_panic: "op_disarm ops i w \<noteq> (Panic m, i', w')"
    and disarm_id: "op_disarm ops i w = (r, i', w') \<Longrightarrow> op_id ops i' = op_id ops i"
begin

lemma disarm_never_arms:
  assumes "op_disarm ops i w = (r, i', w')" and "op_is_armed ops i'"
  shows "op_is_armed ops i"
proof (cases r)
  case (Ok u)
  with assms disarm_ok show ?thesis by blast
next
  case (Err e)
  with assms disarm_err show ?thesis by blast
next
  case (Panic m)
  with assms disarm_panic show ?thesis by blast
qed

lemma arm_never_disarms:
  assumes "op_arm ops c i w = (r, i', w')" and "op_is_armed ops i"
  shows "op_is_armed ops i'"
proof (cases r)
  case (Ok u)
  with assms arm_ok show ?thesis by blast
next
  case (Err e)
  with assms arm_err show ?thesis by blast
next
  case (Panic m)
  with assms arm_panic show ?thesis by blast
qed

end

text \<open>
  ``Must be idempotent'' and ``safe to call twice'', on the injector's own state: once a call has
  succeeded, calling it again changes nothing, in whatever world and with whatever context.
\<close>

locale idempotent_injector = fault_injector +
  assumes arm_idem: "op_arm ops c i w = (Ok u, i', w') \<Longrightarrow> fst (snd (op_arm ops c' i' w'')) = i'"
    and disarm_idem: "op_disarm ops i w = (Ok u, i', w') \<Longrightarrow> fst (snd (op_disarm ops i' w'')) = i'"
begin

lemma disarm_settles:
  assumes "op_disarm ops i w = (Ok u, i', w')"
  shows "fold (\<lambda>v j. fst (snd (op_disarm ops j v))) ws i' = i'"
  using disarm_idem [OF assms] by (induction ws) simp_all

lemma rearm_stays_armed:
  assumes "op_arm ops c i w = (Ok u, i', w')"
  shows "op_is_armed ops (fold (\<lambda>v j. fst (snd (op_arm ops c' j v))) ws i')"
  using arm_idem [OF assms] arm_ok [OF assms] by (induction ws) simp_all

end

text \<open>
  The laws from the two facts an implementation is checked for: what each call leaves behind, and
  that a call on an injector already in that state leaves it as it is. \<open>ready\<close> is what a successful
  arm has set up.
\<close>

lemma idempotent_injectorI:
  fixes ops :: "('i, 'w) injector_ops"
  assumes arm: "\<And>c i w r i' w'. op_arm ops c i w = (r, i', w') \<Longrightarrow> op_id ops i' = op_id ops i \<and>
      (case r of Ok u \<Rightarrow> op_is_armed ops i' \<and> ready i' | Err e \<Rightarrow> op_is_armed ops i' = op_is_armed ops i
       | Panic m \<Rightarrow> False)"
    and rearm: "\<And>c i w. ready i \<Longrightarrow> op_is_armed ops i \<Longrightarrow> fst (snd (op_arm ops c i w)) = i"
    and disarm: "\<And>i w r i' w'. op_disarm ops i w = (r, i', w') \<Longrightarrow> op_id ops i' = op_id ops i \<and>
      (case r of Ok u \<Rightarrow> \<not> op_is_armed ops i' | Err e \<Rightarrow> op_is_armed ops i' \<longrightarrow> op_is_armed ops i
       | Panic m \<Rightarrow> False)"
    and redisarm: "\<And>i w. \<not> op_is_armed ops i \<Longrightarrow> fst (snd (op_disarm ops i w)) = i"
  shows "idempotent_injector ops"
proof
  fix c c' i w i' w' w'' u
  assume "op_arm ops c i w = (Ok u, i', w')"
  from arm [OF this] show "op_is_armed ops i'" "fst (snd (op_arm ops c' i' w'')) = i'"
    using rearm by simp_all
next
  fix i w i' w' w'' u
  assume "op_disarm ops i w = (Ok u, i', w')"
  from disarm [OF this] show "\<not> op_is_armed ops i'" "fst (snd (op_disarm ops i' w'')) = i'"
    using redisarm by simp_all
qed (auto dest: arm disarm)

text \<open>
  An injector after a sequence of calls, each in a world of its own and with its result ignored: what
  a caller can have done to it, whatever happened outside in between.
\<close>

fun after_calls ::
  "('i, 'w) injector_ops \<Rightarrow> fault_context \<Rightarrow> (step_action \<times> 'w) list \<Rightarrow> 'i \<Rightarrow> 'i" where
  "after_calls ops ctx [] i = i"
| "after_calls ops ctx ((Arm, w) # cs) i = after_calls ops ctx cs (fst (snd (op_arm ops ctx i w)))"
| "after_calls ops ctx ((Disarm, w) # cs) i = after_calls ops ctx cs (fst (snd (op_disarm ops i w)))"

lemma after_calls_inv:
  assumes "P i"
    and "\<And>i w r i' w'. P i \<Longrightarrow> op_arm ops ctx i w = (r, i', w') \<Longrightarrow> P i'"
    and "\<And>i w r i' w'. P i \<Longrightarrow> op_disarm ops i w = (r, i', w') \<Longrightarrow> P i'"
  shows "P (after_calls ops ctx cs i)"
  using assms(1)
proof (induction cs arbitrary: i)
  case (Cons c cs)
  obtain a w where c: "c = (a, w)" by fastforce
  show ?case
  proof (cases a)
    case Arm
    obtain r i' w' where call: "op_arm ops ctx i w = (r, i', w')" by (metis prod_cases3)
    from Cons.IH [OF assms(2) [OF Cons.prems call]] show ?thesis by (simp add: c Arm call)
  next
    case Disarm
    obtain r i' w' where call: "op_disarm ops i w = (r, i', w')" by (metis prod_cases3)
    from Cons.IH [OF assms(3) [OF Cons.prems call]] show ?thesis by (simp add: c Disarm call)
  qed
qed simp

section \<open>The clock interface\<close>

text \<open>What the scheduler relies on: time is the start plus everything it was advanced by.\<close>

locale advancing_clock =
  fixes now :: "'c \<Rightarrow> u64"
    and advance :: "'c \<Rightarrow> u64 \<Rightarrow> 'c"
  assumes now_advance: "now (advance c d) = now c + d"
begin

lemma now_foldl_advance: "now (foldl advance c ds) = now c + sum_list ds"
  by (induction ds arbitrary: c) (simp_all add: now_advance add.assoc)

lemma now_advance_mono:
  assumes "unat (now c) + unat d < 2 ^ 64"
  shows "unat (now (advance c d)) = unat (now c) + unat d"
  using assms by (simp add: now_advance unat_add_no_wrap)

end

interpretation vclock: advancing_clock VirtualClock_now_ns VirtualClock_advance
  by unfold_locales (simp add: VirtualClock_now_ns_def VirtualClock_advance_def)

lemma VirtualClock_now_new [simp]: "VirtualClock_now_ns (VirtualClock_new s) = s"
  by (simp add: VirtualClock_now_ns_def VirtualClock_new_def)

end
