(* ===== verification/Rng.thy ===== *)
theory Rng
  imports Complex_Main Core_Types
begin

text \<open>
  The seeded generator of \<^verbatim>\<open>replay/src/rng.rs\<close> (SplitMix64). The lemmas show that the
  output function is a bijection of the 64-bit state, so two different seeds differ at the very
  first draw and one seed yields \<open>2 ^ 64\<close> distinct values before it repeats; and that the derived
  draws stay in their ranges.
\<close>

unbundle bit_operations_syntax

section \<open>Definitions\<close>

record deterministic_rng =
  rng_state :: u64

definition DeterministicRng_from_seed :: "u64 \<Rightarrow> deterministic_rng" where
  "DeterministicRng_from_seed sd = \<lparr>rng_state = sd\<rparr>"

definition DeterministicRng_next_u64 :: "deterministic_rng \<Rightarrow> u64 \<times> deterministic_rng" where
  "DeterministicRng_next_u64 r =
     (let s = rng_state r + 0x9E3779B97F4A7C15;
          z = s;
          z = (z XOR drop_bit 30 z) * 0xBF58476D1CE4E5B9;
          z = (z XOR drop_bit 27 z) * 0x94D049BB133111EB
      in (z XOR drop_bit 31 z, r\<lparr>rng_state := s\<rparr>))"

text \<open>
  Of the \<^verbatim>\<open>f64\<close> values the code computes, all are exact: the 53-bit integer converts exactly and
  the factor is a power of two. A caller's probability can be any \<^verbatim>\<open>f64\<close>, with the infinities
  and NaN; a comparison with NaN is false.
\<close>

datatype f64 = Finite rat | PosInf | NegInf | NaN

fun f64_less :: "f64 \<Rightarrow> f64 \<Rightarrow> bool" where
  "f64_less (Finite a) (Finite b) = (a < b)"
| "f64_less (Finite a) PosInf = True"
| "f64_less NegInf (Finite b) = True"
| "f64_less NegInf PosInf = True"
| "f64_less _ _ = False"

definition DeterministicRng_next_f64 :: "deterministic_rng \<Rightarrow> f64 \<times> deterministic_rng" where
  "DeterministicRng_next_f64 r =
     (case DeterministicRng_next_u64 r of (u, r') \<Rightarrow>
        (Finite (of_nat (unat (drop_bit 11 u)) * (1 / of_nat (2 ^ 53))), r'))"

definition DeterministicRng_gen_bool :: "deterministic_rng \<Rightarrow> f64 \<Rightarrow> bool \<times> deterministic_rng" where
  "DeterministicRng_gen_bool r probability =
     (case DeterministicRng_next_f64 r of (f, r') \<Rightarrow> (f64_less f probability, r'))"

text \<open>
  \<^verbatim>\<open>gen_range_u64\<close>: the debug assertion exists in a debug build only; in a release build the
  difference wraps, and an empty range makes the remainder panic.
\<close>

definition DeterministicRng_gen_range_u64 ::
  "profile \<Rightarrow> deterministic_rng \<Rightarrow> u64 \<Rightarrow> u64 \<Rightarrow> (u64, 'e) outcome \<times> deterministic_rng" where
  "DeterministicRng_gen_range_u64 p r low high =
     (if p = Debug \<and> \<not> low < high then (Panic ''gen_range_u64: low must be < high'', r)
      else (case DeterministicRng_next_u64 r of (u, r') \<Rightarrow>
        if high - low = 0
        then (Panic ''attempt to calculate the remainder with a divisor of zero'', r')
        else (Ok (low + u mod (high - low)), r')))"

text \<open>The value of the \<open>n\<close>-th draw (from 0) of a generator.\<close>

fun rng_nth :: "deterministic_rng \<Rightarrow> nat \<Rightarrow> u64" where
  "rng_nth r 0 = fst (DeterministicRng_next_u64 r)"
| "rng_nth r (Suc n) = rng_nth (snd (DeterministicRng_next_u64 r)) n"

section \<open>The output function is injective\<close>

definition splitmix_out :: "u64 \<Rightarrow> u64" where
  "splitmix_out s =
     (let z = (s XOR drop_bit 30 s) * 0xBF58476D1CE4E5B9;
          z = (z XOR drop_bit 27 z) * 0x94D049BB133111EB
      in z XOR drop_bit 31 z)"

lemma rng_state_update: "r\<lparr>rng_state := s\<rparr> = \<lparr>rng_state = s\<rparr>"
  by (cases r) simp

lemma next_u64_eq:
  "DeterministicRng_next_u64 r =
     (splitmix_out (rng_state r + 0x9E3779B97F4A7C15), \<lparr>rng_state = rng_state r + 0x9E3779B97F4A7C15\<rparr>)"
  by (simp only: DeterministicRng_next_u64_def splitmix_out_def Let_def rng_state_update)

text \<open>A right xorshift can be undone from the top bit downwards.\<close>

lemma xorshift_bit_step:
  fixes x y :: u64
  assumes "x XOR drop_bit k x = y XOR drop_bit k y" and "bit x (k + n) = bit y (k + n)"
  shows "bit x n = bit y n"
proof -
  have "bit (x XOR drop_bit k x) n = bit (y XOR drop_bit k y) n"
    by (simp only: assms(1))
  then have "(bit x n \<noteq> bit x (k + n)) = (bit y n \<noteq> bit y (k + n))"
    by (simp only: bit_xor_iff bit_drop_bit_eq o_apply)
  then show ?thesis
    using assms(2) by blast
qed

lemma xorshift_inj:
  fixes x y :: u64
  assumes "0 < k" and eq: "x XOR drop_bit k x = y XOR drop_bit k y"
  shows "x = y"
proof (rule bit_eqI)
  fix n
  show "bit x n = bit y n"
  proof (induction "64 - n" arbitrary: n rule: less_induct)
    case less
    show ?case
    proof (cases "n < 64")
      case True
      then have "64 - (k + n) < 64 - n" using assms(1) by linarith
      then have "bit x (k + n) = bit y (k + n)" by (rule less)
      with eq show ?thesis by (rule xorshift_bit_step)
    next
      case False
      then have "\<not> bit x n" and "\<not> bit y n"
        using bit_imp_le_length [of x n] bit_imp_le_length [of y n] by auto
      then show ?thesis by blast
    qed
  qed
qed

lemma odd_mult_inj:
  fixes x y c d :: u64
  assumes "c * d = 1" and "x * c = y * c"
  shows "x = y"
proof -
  have "x * c * d = y * c * d" using assms(2) by simp
  then show ?thesis using assms(1) by (simp add: mult.assoc)
qed

lemma splitmix_out_inj:
  assumes "splitmix_out s = splitmix_out t"
  shows "s = t"
proof -
  let ?x = "\<lambda>k z :: u64. z XOR drop_bit k z"
  let ?c = "0xBF58476D1CE4E5B9 :: u64" and ?d = "0x94D049BB133111EB :: u64"
  have c: "?c * 0x96de1b173f119089 = 1" and d: "?d * 0x319642b2d24d8ec3 = 1"
    by simp_all
  have "?x 31 (?x 27 (?x 30 s * ?c) * ?d) = ?x 31 (?x 27 (?x 30 t * ?c) * ?d)"
    using assms by (simp only: splitmix_out_def Let_def)
  then have "?x 27 (?x 30 s * ?c) * ?d = ?x 27 (?x 30 t * ?c) * ?d"
    by (rule xorshift_inj [rotated]) simp
  then have "?x 27 (?x 30 s * ?c) = ?x 27 (?x 30 t * ?c)"
    by (rule odd_mult_inj [OF d])
  then have "?x 30 s * ?c = ?x 30 t * ?c"
    by (rule xorshift_inj [rotated]) simp
  then have "?x 30 s = ?x 30 t"
    by (rule odd_mult_inj [OF c])
  then show "s = t"
    by (rule xorshift_inj [rotated]) simp
qed

lemma rng_nth_eq: "rng_nth r n = splitmix_out (rng_state r + of_nat (Suc n) * 0x9E3779B97F4A7C15)"
  by (induction n arbitrary: r) (simp_all add: next_u64_eq algebra_simps)

lemma rng_nth_from_seed:
  "rng_nth (DeterministicRng_from_seed sd) n = splitmix_out (sd + of_nat (Suc n) * 0x9E3779B97F4A7C15)"
  by (simp add: rng_nth_eq DeterministicRng_from_seed_def)

lemma next_f64_unit:
  "\<exists>q r'. DeterministicRng_next_f64 r = (Finite q, r') \<and> 0 \<le> q \<and> q < 1"
proof -
  let ?n = "unat (drop_bit 11 (fst (DeterministicRng_next_u64 r)))"
  let ?q = "of_nat ?n * (1 / of_nat (2 ^ 53)) :: rat"
  have f: "DeterministicRng_next_f64 r = (Finite ?q, snd (DeterministicRng_next_u64 r))"
    by (simp add: DeterministicRng_next_f64_def split: prod.splits)
  have "?n < 2 ^ 53"
    using unat_u64_lt [of "fst (DeterministicRng_next_u64 r)"]
    by (simp only: unat_drop_bit_eq) (simp add: drop_bit_eq_div div_less_iff_less_mult)
  then have "(of_nat ?n :: rat) < of_nat (2 ^ 53)"
    by (simp only: of_nat_less_iff)
  moreover have "0 \<le> (of_nat ?n :: rat)"
    by (rule of_nat_0_le_iff)
  ultimately have q: "0 \<le> ?q" "?q < 1"
    by (simp_all add: divide_less_eq)
  show ?thesis
    by (intro exI conjI) (rule f, rule q, rule q)
qed

lemma different_seed_diverges:
  "a \<noteq> b \<Longrightarrow> rng_nth (DeterministicRng_from_seed a) n \<noteq> rng_nth (DeterministicRng_from_seed b) n"
  by (auto simp: rng_nth_from_seed dest!: splitmix_out_inj)

lemma rng_full_period:
  assumes "i < 2 ^ 64" and "j < 2 ^ 64" and "i \<noteq> j"
  shows "rng_nth (DeterministicRng_from_seed sd) i \<noteq> rng_nth (DeterministicRng_from_seed sd) j"
proof
  assume "rng_nth (DeterministicRng_from_seed sd) i = rng_nth (DeterministicRng_from_seed sd) j"
  then have "(of_nat (Suc i) :: u64) * 0x9E3779B97F4A7C15 = of_nat (Suc j) * 0x9E3779B97F4A7C15"
    unfolding rng_nth_from_seed by (drule_tac splitmix_out_inj) (simp add: algebra_simps)
  then have "(of_nat (Suc i) :: u64) = of_nat (Suc j)"
    by (rule odd_mult_inj [where d = "0xf1de83e19937733d", rotated]) simp
  then have "(of_nat i :: u64) = of_nat j"
    by simp
  then show False
    using assms by (simp add: word_of_nat_eq_iff take_bit_nat_eq_self)
qed

section \<open>Properties\<close>

text \<open>
  C39: no two draws that could be confused coincide. Generators with different seeds disagree at every
  draw, so the \<open>n\<close>-th value determines the seed (the source's test \<^verbatim>\<open>different_seed_diverges\<close> checks one
  pair of seeds), and one seed does not repeat a value within its first \<open>2 ^ 64\<close> draws.
\<close>

theorem rng_draws_distinct:
  assumes "a \<noteq> b" and "i < 2 ^ 64" and "j < 2 ^ 64" and "i \<noteq> j"
  shows "rng_nth (DeterministicRng_from_seed a) n \<noteq> rng_nth (DeterministicRng_from_seed b) n
       \<and> rng_nth (DeterministicRng_from_seed a) i \<noteq> rng_nth (DeterministicRng_from_seed a) j"
  using different_seed_diverges [OF assms(1)] rng_full_period [OF assms(2-4)] by blast

theorem rng_draws_distinct_witness:
  "rng_nth (DeterministicRng_from_seed 1) 5 \<noteq> rng_nth (DeterministicRng_from_seed 2) 5
   \<and> rng_nth (DeterministicRng_from_seed 1) 0 \<noteq> rng_nth (DeterministicRng_from_seed 1) 12345"
  using rng_draws_distinct [of 1 2 0 12345 5] by simp

text \<open>
  With \<open>low < high\<close>, \<^verbatim>\<open>gen_range_u64\<close> returns in either profile, its value lies in the
  half-open range, and the generator moves on by exactly one draw.
\<close>

lemma gen_range_u64_in_range:
  assumes "low < high"
  shows "\<exists>v. DeterministicRng_gen_range_u64 p r low high
             = (Ok v :: (u64, 'e) outcome, snd (DeterministicRng_next_u64 r))
           \<and> low \<le> v \<and> v < high"
proof -
  let ?u = "fst (DeterministicRng_next_u64 r)"
  let ?v = "low + ?u mod (high - low)"
  have nz: "high - low \<noteq> 0" using assms by auto
  have le: "low \<le> high" using assms by simp
  have m: "unat (?u mod (high - low)) < unat (high - low)"
    using nz by (simp add: unat_mod unat_gt_0)
  have d: "unat (high - low) = unat high - unat low"
    using le by (simp add: unat_sub)
  have lh: "unat low < unat high" using assms by (simp add: word_less_nat_alt)
  have "unat low + unat (?u mod (high - low)) < 2 ^ 64"
    using m d lh unat_u64_lt [of high] by simp
  then have v: "unat ?v = unat low + unat (?u mod (high - low))"
    by (intro unat_add_no_wrap) simp
  have "low \<le> ?v" using v by (simp add: word_le_nat_alt)
  moreover have "?v < high" using v m d lh by (simp add: word_less_nat_alt)
  ultimately show ?thesis
    using assms nz by (auto simp: DeterministicRng_gen_range_u64_def split: prod.splits)
qed

text \<open>
  \<^verbatim>\<open>next_f64\<close> is a finite value in the half-open unit interval, so a probability of one or more
  always fires in \<^verbatim>\<open>gen_bool\<close> and a probability of zero or less never does.
\<close>

lemma gen_bool_extremes:
  "(\<exists>q. fst (DeterministicRng_next_f64 r) = Finite q \<and> 0 \<le> q \<and> q < 1)
   \<and> (1 \<le> x \<longrightarrow> fst (DeterministicRng_gen_bool r (Finite x)))
   \<and> (x \<le> 0 \<longrightarrow> \<not> fst (DeterministicRng_gen_bool r (Finite x)))"
proof -
  obtain q r' where "DeterministicRng_next_f64 r = (Finite q, r')" and "0 \<le> q" and "q < 1"
    using next_f64_unit by blast
  then show ?thesis
    by (auto simp: DeterministicRng_gen_bool_def)
qed

text \<open>The reference vector of the source's unit test.\<close>

lemma matches_reference_vector:
  "fst (DeterministicRng_next_u64 (DeterministicRng_from_seed 1234567)) = 6457827717110365317"
  by (simp add: DeterministicRng_next_u64_def DeterministicRng_from_seed_def Let_def)

end
