(* ===== verification/Fix_Message.thy ===== *)
theory Fix_Message
  imports Rust_Std
begin

text \<open>
  \<^verbatim>\<open>adapters/src/fix/message.rs\<close> and the tag constants of \<^verbatim>\<open>fields.rs\<close>: parsing a message
  into its fields, the checksum, and \<^verbatim>\<open>set_field\<close>, which rebuilds a message around one changed
  value. The specification side is \<open>encode_fields\<close>: the wire form of a list of fields. Parsing
  inverts it, and \<^verbatim>\<open>set_field\<close> is described by the field list it encodes.
\<close>

section \<open>Definitions\<close>

definition SOH :: u8 where
  "SOH = 0x01"

definition TAG_BEGIN_STRING :: u32 where "TAG_BEGIN_STRING = 8"
definition TAG_BODY_LENGTH :: u32 where "TAG_BODY_LENGTH = 9"
definition TAG_MSG_TYPE :: u32 where "TAG_MSG_TYPE = 35"
definition TAG_MSG_SEQ_NUM :: u32 where "TAG_MSG_SEQ_NUM = 34"
definition TAG_ORD_STATUS :: u32 where "TAG_ORD_STATUS = 39"
definition TAG_EXEC_TYPE :: u32 where "TAG_EXEC_TYPE = 150"
definition TAG_PRICE :: u32 where "TAG_PRICE = 44"
definition TAG_CHECKSUM :: u32 where "TAG_CHECKSUM = 10"

definition MSG_TYPE_NEW_ORDER_SINGLE :: bytes where "MSG_TYPE_NEW_ORDER_SINGLE = str_bytes ''D''"
definition MSG_TYPE_EXECUTION_REPORT :: bytes where "MSG_TYPE_EXECUTION_REPORT = str_bytes ''8''"
definition MSG_TYPE_ORDER_CANCEL_REJECT :: bytes where "MSG_TYPE_ORDER_CANCEL_REJECT = str_bytes ''9''"
definition MSG_TYPE_REJECT :: bytes where "MSG_TYPE_REJECT = str_bytes ''3''"
definition MSG_TYPE_BUSINESS_MESSAGE_REJECT :: bytes where "MSG_TYPE_BUSINESS_MESSAGE_REJECT = str_bytes ''j''"
definition ORD_STATUS_NEW :: bytes where "ORD_STATUS_NEW = str_bytes ''0''"
definition ORD_STATUS_PARTIALLY_FILLED :: bytes where "ORD_STATUS_PARTIALLY_FILLED = str_bytes ''1''"
definition ORD_STATUS_FILLED :: bytes where "ORD_STATUS_FILLED = str_bytes ''2''"
definition ORD_STATUS_REJECTED :: bytes where "ORD_STATUS_REJECTED = str_bytes ''8''"
definition EXEC_TYPE_NEW :: bytes where "EXEC_TYPE_NEW = str_bytes ''0''"
definition EXEC_TYPE_TRADE :: bytes where "EXEC_TYPE_TRADE = str_bytes ''F''"
definition EXEC_TYPE_REJECTED :: bytes where "EXEC_TYPE_REJECTED = str_bytes ''8''"

type_synonym fix_fields = "(u32 \<times> bytes) list"

record fix_message =
  msg_fields :: fix_fields

datatype parse_error = Empty | MissingSoh | MalformedTag

definition FixMessage_get :: "fix_message \<Rightarrow> u32 \<Rightarrow> bytes option" where
  "FixMessage_get m tag = map_option snd (find (\<lambda>(t, v). t = tag) (msg_fields m))"

definition FixMessage_is :: "fix_message \<Rightarrow> u32 \<Rightarrow> bytes \<Rightarrow> bool" where
  "FixMessage_is m tag expected \<longleftrightarrow> FixMessage_get m tag = Some expected"

text \<open>The loop of \<^verbatim>\<open>parse\<close> over the pieces between separators.\<close>

fun parse_fields :: "bytes list \<Rightarrow> (fix_fields, parse_error) outcome" where
  "parse_fields [] = Ok []"
| "parse_fields (field # rest) =
     (if field = [] then parse_fields rest
      else case position (\<lambda>b. b = 0x3D) field of
        None \<Rightarrow> Err MalformedTag
      | Some eq \<Rightarrow>
          (case from_utf8 (take eq field) of
             None \<Rightarrow> Err MalformedTag
           | Some tag_str \<Rightarrow>
               (case parse_unsigned 32 tag_str of
                  None \<Rightarrow> Err MalformedTag
                | Some tag \<Rightarrow>
                    (case parse_fields rest of
                       Ok fs \<Rightarrow> Ok ((of_nat tag, drop (eq + 1) field) # fs)
                     | Err e \<Rightarrow> Err e
                     | Panic m \<Rightarrow> Panic m))))"

definition parse :: "bytes \<Rightarrow> (fix_message, parse_error) outcome" where
  "parse bs =
     (if bs = [] then Err Empty
      else case parse_fields (split_on (\<lambda>b. b = SOH) bs) of
        Ok fs \<Rightarrow> if fs = [] then Err MissingSoh else Ok \<lparr>msg_fields = fs\<rparr>
      | Err e \<Rightarrow> Err e
      | Panic m \<Rightarrow> Panic m)"

definition compute_checksum :: "bytes \<Rightarrow> u8" where
  "compute_checksum bs = fold (\<lambda>b acc. acc + b) bs 0"

definition format_checksum :: "u8 \<Rightarrow> bytes" where
  "format_checksum s = dec3_bytes (unat s)"

text \<open>The loop of \<^verbatim>\<open>set_field\<close> that rebuilds the body.\<close>

fun body_bytes :: "u32 \<Rightarrow> bytes \<Rightarrow> fix_fields \<Rightarrow> bytes" where
  "body_bytes tag new_value [] = []"
| "body_bytes tag new_value ((t, v) # rest) =
     (if t = 8 \<or> t = 9 \<or> t = 10 then body_bytes tag new_value rest
      else dec_bytes (unat t) @ [0x3D] @ (if t = tag then new_value else v) @ [SOH]
             @ body_bytes tag new_value rest)"

definition set_field :: "bytes \<Rightarrow> u32 \<Rightarrow> bytes \<Rightarrow> (bytes, parse_error) outcome" where
  "set_field bs tag new_value =
     (case parse bs of
        Err e \<Rightarrow> Err e
      | Panic m \<Rightarrow> Panic m
      | Ok parsed \<Rightarrow>
          (case FixMessage_get parsed 8 of
             None \<Rightarrow> Panic ''framed message always has tag 8, framing.rs guarantees it''
           | Some begin_string \<Rightarrow>
               let body = body_bytes tag new_value (msg_fields parsed);
                   full = str_bytes ''8='' @ begin_string @ [SOH]
                          @ str_bytes ''9='' @ dec_bytes (length body) @ [SOH] @ body
               in Ok (full @ str_bytes ''10='' @ dec3_bytes (unat (compute_checksum full)) @ [SOH])))"

text \<open>The wire form of a list of fields.\<close>

fun encode_fields :: "fix_fields \<Rightarrow> bytes" where
  "encode_fields [] = []"
| "encode_fields ((t, v) # rest) = dec_bytes (unat t) @ [0x3D] @ v @ [SOH] @ encode_fields rest"

definition soh_free :: "fix_fields \<Rightarrow> bool" where
  "soh_free fs \<longleftrightarrow> (\<forall>(t, v) \<in> set fs. SOH \<notin> set v)"

text \<open>The fields a rebuilt message keeps, and the message around them.\<close>

definition structural :: "u32 \<Rightarrow> bool" where
  "structural t \<longleftrightarrow> t = 8 \<or> t = 9 \<or> t = 10"

definition kept_fields :: "u32 \<Rightarrow> bytes \<Rightarrow> fix_fields \<Rightarrow> fix_fields" where
  "kept_fields tag new_value fs =
     map (\<lambda>(t, v). (t, if t = tag then new_value else v)) (filter (\<lambda>(t, v). \<not> structural t) fs)"

definition head_fields :: "bytes \<Rightarrow> fix_fields \<Rightarrow> fix_fields" where
  "head_fields begin_string body = (8, begin_string) # (9, dec_bytes (length (encode_fields body))) # body"

definition message_fields :: "bytes \<Rightarrow> fix_fields \<Rightarrow> fix_fields" where
  "message_fields begin_string body =
     head_fields begin_string body
     @ [(10, dec3_bytes (unat (compute_checksum (encode_fields (head_fields begin_string body)))))]"

section \<open>Parsing and encoding\<close>

lemma encode_fields_append [simp]: "encode_fields (fs @ gs) = encode_fields fs @ encode_fields gs"
  by (induction fs rule: encode_fields.induct) simp_all

lemma soh_free_simps [simp]:
  "soh_free []" "soh_free ((t, v) # fs) \<longleftrightarrow> SOH \<notin> set v \<and> soh_free fs"
  "soh_free (fs @ gs) \<longleftrightarrow> soh_free fs \<and> soh_free gs"
  by (auto simp: soh_free_def)

lemma SOH_not_in_dec [simp]: "SOH \<notin> set (dec_bytes n)" "SOH \<notin> set (dec3_bytes n)"
  by (auto simp: SOH_def dest: dec_bytes_digits dec3_bytes_digits)

lemma eq_not_in_dec: "b \<in> set (dec_bytes n) \<Longrightarrow> b \<noteq> 0x3D"
  by (auto dest: dec_bytes_digits)

text \<open>One field: its piece between separators gives back the tag and the value.\<close>

lemma parse_fields_encoded:
  "parse_fields ((dec_bytes (unat t) @ 0x3D # v) # rest) =
     (case parse_fields rest of Ok fs \<Rightarrow> Ok ((t, v) # fs) | Err e \<Rightarrow> Err e | Panic m \<Rightarrow> Panic m)"
proof -
  have "position (\<lambda>b. b = 0x3D) (dec_bytes (unat t) @ 0x3D # v) = Some (length (dec_bytes (unat t)))"
    by (rule position_append_first) (auto dest: eq_not_in_dec)
  moreover have num: "parse_unsigned 32 (dec_bytes (unat t)) = Some (unat t)"
    using unat_u32_lt [of t] by (intro parse_unsigned_dec) simp
  moreover have "from_utf8 (dec_bytes (unat t)) = Some (dec_bytes (unat t))"
    using num by (rule parse_unsigned_utf8)
  ultimately show ?thesis by (simp split: outcome.split)
qed

lemma split_encoded:
  assumes "SOH \<notin> set v"
  shows "split_on (\<lambda>b. b = SOH) (dec_bytes n @ 0x3D # v @ SOH # xs)
         = (dec_bytes n @ 0x3D # v) # split_on (\<lambda>b. b = SOH) xs"
proof -
  have "\<forall>x \<in> set (dec_bytes n @ 0x3D # v). x \<noteq> SOH"
    using assms SOH_not_in_dec(1) [of n] by (auto simp: SOH_def)
  from split_on_append [OF this] show ?thesis by simp
qed

lemma parse_fields_encode:
  "soh_free fs \<Longrightarrow> parse_fields (split_on (\<lambda>b. b = SOH) (encode_fields fs)) = Ok fs"
proof (induction fs rule: encode_fields.induct)
  case (2 t v rest)
  then show ?case
    by (simp add: split_encoded parse_fields_encoded del: parse_fields.simps)
qed simp

lemma parse_encode:
  assumes "soh_free fs" and "fs \<noteq> []"
  shows "parse (encode_fields fs) = Ok \<lparr>msg_fields = fs\<rparr>"
proof -
  have "encode_fields fs \<noteq> []" using assms(2) by (cases fs rule: encode_fields.cases) simp_all
  with assms show ?thesis by (simp add: parse_def parse_fields_encode)
qed

lemma parse_fields_no_panic [panic_free]: "parse_fields ps \<noteq> Panic m"
  by (induction ps) (auto split: option.splits outcome.splits)

lemma parse_no_panic [panic_free]: "parse bs \<noteq> Panic m"
  by (simp add: parse_def parse_fields_no_panic split: outcome.split)

text \<open>Whatever parses, its values hold no separator.\<close>

lemma parse_fields_values:
  "parse_fields ps = Ok fs \<Longrightarrow> \<forall>p \<in> set ps. SOH \<notin> set p \<Longrightarrow> soh_free fs"
proof (induction ps arbitrary: fs)
  case (Cons p ps)
  then show ?case
    by (auto split: if_splits option.splits outcome.splits dest: in_set_dropD)
qed simp

lemma parse_soh_free:
  assumes "parse bs = Ok m"
  shows "soh_free (msg_fields m)" and "msg_fields m \<noteq> []"
proof -
  from assms have fs: "parse_fields (split_on (\<lambda>b. b = SOH) bs) = Ok (msg_fields m)" "msg_fields m \<noteq> []"
    by (auto simp: parse_def split: if_splits outcome.splits)
  show "msg_fields m \<noteq> []" by (rule fs)
  show "soh_free (msg_fields m)"
    using fs(1) by (rule parse_fields_values) (blast dest: split_on_pieces)
qed

section \<open>Rebuilding a message\<close>

lemma body_bytes_encode: "body_bytes tag nv fs = encode_fields (kept_fields tag nv fs)"
  by (induction tag nv fs rule: body_bytes.induct) (auto simp: kept_fields_def structural_def)

lemma tag_bytes: "str_bytes ''8='' = dec_bytes 8 @ [0x3D]" "str_bytes ''9='' = dec_bytes 9 @ [0x3D]"
  "str_bytes ''10='' = dec_bytes 10 @ [0x3D]"
  by (simp_all add: str_bytes_def dec_bytes_def dec_digits.simps digit_byte_def of_char_def)

lemma set_field_encodes:
  assumes "parse bs = Ok m" and "FixMessage_get m 8 = Some b"
  shows "set_field bs tag nv = Ok (encode_fields (message_fields b (kept_fields tag nv (msg_fields m))))"
  using assms
  by (simp add: set_field_def Let_def body_bytes_encode message_fields_def head_fields_def tag_bytes)

lemma set_field_OkD:
  assumes "set_field bs tag nv = Ok out"
  obtains m b where "parse bs = Ok m" and "FixMessage_get m 8 = Some b"
    and "out = encode_fields (message_fields b (kept_fields tag nv (msg_fields m)))"
proof (cases "parse bs")
  case (Ok m)
  with assms obtain b where "FixMessage_get m 8 = Some b"
    by (auto simp: set_field_def split: option.splits)
  with Ok that set_field_encodes [OF Ok] assms show ?thesis by simp
qed (use assms in \<open>simp_all add: set_field_def\<close>)

lemma soh_free_kept [simp]: "soh_free fs \<Longrightarrow> SOH \<notin> set nv \<Longrightarrow> soh_free (kept_fields tag nv fs)"
  by (induction fs) (auto simp: kept_fields_def soh_free_def split: if_splits)

lemma soh_free_message [simp]: "soh_free (message_fields b fs) \<longleftrightarrow> SOH \<notin> set b \<and> soh_free fs"
  by (simp add: message_fields_def head_fields_def)

lemma find_field_SomeD: "find (\<lambda>(t, v). t = tag) fs = Some p \<Longrightarrow> p \<in> set fs \<and> fst p = tag"
  by (induction fs) (auto split: if_splits)

lemma get_soh_free: "soh_free (msg_fields m) \<Longrightarrow> FixMessage_get m t = Some v \<Longrightarrow> SOH \<notin> set v"
  by (auto simp: FixMessage_get_def soh_free_def dest: find_field_SomeD)

lemma parse_set_field:
  assumes "parse bs = Ok m" and "FixMessage_get m 8 = Some b" and "SOH \<notin> set nv"
    and "set_field bs tag nv = Ok out"
  shows "parse out = Ok \<lparr>msg_fields = message_fields b (kept_fields tag nv (msg_fields m))\<rparr>"
proof -
  have "out = encode_fields (message_fields b (kept_fields tag nv (msg_fields m)))"
    using assms(4) set_field_encodes [OF assms(1,2)] by simp
  moreover have "SOH \<notin> set b" using parse_soh_free(1) [OF assms(1)] assms(2) by (rule get_soh_free)
  moreover have "message_fields b fs \<noteq> []" for fs by (simp add: message_fields_def)
  ultimately show ?thesis using parse_soh_free(1) [OF assms(1)] assms(3) by (simp add: parse_encode)
qed

text \<open>Lookups in the rebuilt message.\<close>

lemma find_kept:
  "\<not> structural t \<Longrightarrow> map_option snd (find (\<lambda>(s, v). s = t) (kept_fields tag nv fs)) =
     (if t = tag then map_option (\<lambda>v. nv) (find (\<lambda>(s, v). s = t) fs)
      else map_option snd (find (\<lambda>(s, v). s = t) fs))"
  by (induction fs) (auto simp: kept_fields_def)

lemma get_message_fields:
  assumes "\<not> structural t"
  shows "FixMessage_get \<lparr>msg_fields = message_fields b (kept_fields tag nv (msg_fields m))\<rparr> t =
    (if t = tag then map_option (\<lambda>v. nv) (FixMessage_get m t) else FixMessage_get m t)"
proof -
  have "t \<noteq> 8" "t \<noteq> 9" "t \<noteq> 10" using assms by (auto simp: structural_def)
  moreover have "find P (xs @ ys) = (case find P xs of None \<Rightarrow> find P ys | r \<Rightarrow> r)" for P :: "u32 \<times> bytes \<Rightarrow> bool" and xs ys
    by (induction xs) auto
  ultimately show ?thesis
    using find_kept [OF assms, of tag nv "msg_fields m"]
    by (auto simp: FixMessage_get_def message_fields_def head_fields_def option.map_comp comp_def
        split: option.splits)
qed

lemma kept_kept: "kept_fields tag nv (message_fields b (kept_fields tag nv fs)) = kept_fields tag nv fs"
proof -
  have "kept_fields tag nv (kept_fields tag nv fs) = kept_fields tag nv fs"
    by (induction fs) (auto simp: kept_fields_def)
  moreover have "kept_fields tag nv (message_fields b gs) = kept_fields tag nv gs" for gs
    by (simp add: kept_fields_def message_fields_def head_fields_def structural_def)
  ultimately show ?thesis by simp
qed

section \<open>Properties\<close>

text \<open>
  C26: parsing inverts the wire form: a non-empty list of fields whose values hold no separator is
  recovered from its encoding, tags, values and order.
\<close>

theorem parse_encode_roundtrip:
  assumes "fs \<noteq> []" and "\<forall>(t, v) \<in> set fs. SOH \<notin> set v"
  shows "parse (encode_fields fs) = Ok \<lparr>msg_fields = fs\<rparr>"
  using assms by (intro parse_encode) (simp_all add: soh_free_def)

theorem parse_encode_roundtrip_witness:
  "parse (encode_fields [(8, str_bytes ''FIX.4.4''), (35, str_bytes ''8''), (44, str_bytes ''1=2'')])
   = Ok \<lparr>msg_fields = [(8, str_bytes ''FIX.4.4''), (35, str_bytes ''8''), (44, str_bytes ''1=2'')]\<rparr>"
  by (rule parse_encode_roundtrip) (simp_all add: str_bytes_def SOH_def of_char_def)

text \<open>
  C14: \<^verbatim>\<open>set_field\<close> on a message that parses and has a BeginString, with a value that holds no
  separator, returns a self-consistent message: BeginString, a BodyLength that is the length of the
  body, the body, and a CheckSum over everything before it. The body is the original's fields in
  order without 8, 9 and 10, with the one value replaced; so the new message parses to the new value
  under the tag and the old values everywhere else.
\<close>

theorem set_field_valid:
  assumes "parse bs = Ok m" and "FixMessage_get m 8 = Some b" and "SOH \<notin> set nv"
  shows "\<exists>out m' pre body. set_field bs tag nv = Ok out
     \<and> out = pre @ str_bytes ''10='' @ format_checksum (compute_checksum pre) @ [SOH]
     \<and> pre = str_bytes ''8='' @ b @ [SOH] @ str_bytes ''9='' @ dec_bytes (length body) @ [SOH] @ body
     \<and> body = encode_fields (kept_fields tag nv (msg_fields m))
     \<and> parse out = Ok m'
     \<and> (\<forall>t. t \<noteq> 8 \<and> t \<noteq> 9 \<and> t \<noteq> 10 \<longrightarrow>
          FixMessage_get m' t =
            (if t = tag then map_option (\<lambda>v. nv) (FixMessage_get m t) else FixMessage_get m t))"
proof -
  let ?body = "kept_fields tag nv (msg_fields m)"
  let ?out = "encode_fields (message_fields b ?body)"
  have out: "set_field bs tag nv = Ok ?out" by (rule set_field_encodes [OF assms(1,2)])
  have shape: "?out = encode_fields (head_fields b ?body) @ str_bytes ''10=''
      @ format_checksum (compute_checksum (encode_fields (head_fields b ?body))) @ [SOH]"
    by (simp add: message_fields_def tag_bytes format_checksum_def)
  have head: "encode_fields (head_fields b ?body) = str_bytes ''8='' @ b @ [SOH]
      @ str_bytes ''9='' @ dec_bytes (length (encode_fields ?body)) @ [SOH] @ encode_fields ?body"
    by (simp add: head_fields_def tag_bytes)
  show ?thesis
    using out shape head parse_set_field [OF assms out] get_message_fields
    by (fastforce simp: structural_def)
qed

theorem set_field_valid_witness:
  "\<exists>out m'. set_field (str_bytes ''8=A'' @ SOH # str_bytes ''9=5'' @ SOH # str_bytes ''44=1'' @ [SOH]) 44 (str_bytes ''7'') = Ok out
     \<and> parse out = Ok m' \<and> FixMessage_get m' 44 = Some (str_bytes ''7'')"
proof -
  let ?fs = "[(8, str_bytes ''A''), (9, str_bytes ''5''), (44, str_bytes ''1'')] :: fix_fields"
  have enc: "str_bytes ''8=A'' @ SOH # str_bytes ''9=5'' @ SOH # str_bytes ''44=1'' @ [SOH] = encode_fields ?fs"
    by (simp add: str_bytes_def of_char_def dec_bytes_def dec_digits.simps digit_byte_def)
  have p: "parse (encode_fields ?fs) = Ok \<lparr>msg_fields = ?fs\<rparr>"
    by (rule parse_encode) (simp_all add: str_bytes_def SOH_def of_char_def)
  have g: "FixMessage_get \<lparr>msg_fields = ?fs\<rparr> 8 = Some (str_bytes ''A'')"
    "FixMessage_get \<lparr>msg_fields = ?fs\<rparr> 44 = Some (str_bytes ''1'')" by (simp_all add: FixMessage_get_def)
  have "SOH \<notin> set (str_bytes ''7'')" by (simp add: str_bytes_def SOH_def of_char_def)
  from set_field_valid [OF p g(1) this, of 44] obtain out m'
    where "set_field (encode_fields ?fs) 44 (str_bytes ''7'') = Ok out" "parse out = Ok m'"
      "\<forall>t. t \<noteq> 8 \<and> t \<noteq> 9 \<and> t \<noteq> 10 \<longrightarrow> FixMessage_get m' t =
         (if t = 44 then map_option (\<lambda>v. str_bytes ''7'') (FixMessage_get \<lparr>msg_fields = ?fs\<rparr> t)
          else FixMessage_get \<lparr>msg_fields = ?fs\<rparr> t)" by blast
  then show ?thesis unfolding enc using g(2) by force
qed

text \<open>
  A rebuilt message is a fixed point: setting the same field to the same value again changes
  no byte, so BodyLength and CheckSum are already what \<^verbatim>\<open>set_field\<close> would compute.
\<close>

lemma set_field_settles:
  assumes "set_field bs tag nv = Ok out" and "SOH \<notin> set nv"
  shows "set_field out tag nv = Ok out"
proof -
  obtain m b where m: "parse bs = Ok m" "FixMessage_get m 8 = Some b"
    and out: "out = encode_fields (message_fields b (kept_fields tag nv (msg_fields m)))"
    using assms(1) by (rule set_field_OkD)
  note p = parse_set_field [OF m assms(2,1)]
  have "FixMessage_get \<lparr>msg_fields = message_fields b (kept_fields tag nv (msg_fields m))\<rparr> 8 = Some b"
    by (simp add: FixMessage_get_def message_fields_def head_fields_def)
  from set_field_encodes [OF p this] show ?thesis by (simp add: kept_kept out)
qed

end
