(* ===== verification/Fix_Framing.thy ===== *)
theory Fix_Framing
  imports Fix_Message
begin

text \<open>
  \<^verbatim>\<open>adapters/src/fix/framing.rs\<close>: finding one complete message at the start of a buffer. The
  length arithmetic is on \<^verbatim>\<open>usize\<close>, so the model takes the build profile; positions inside the
  buffer cannot overflow. \<open>frame\<close> is the specification side: the bytes of one message with a given
  BeginString, body and three-byte checksum.
\<close>

section \<open>Definitions\<close>

definition find_complete_message :: "profile \<Rightarrow> bytes \<Rightarrow> (nat option, parse_error) outcome" where
  "find_complete_message p buf =
     (if length buf < 2 then Ok None
      else if \<not> starts_with buf (str_bytes ''8='') then Err MalformedTag
      else case position (\<lambda>b. b = SOH) buf of
        None \<Rightarrow> Ok None
      | Some tag8_end \<Rightarrow>
          let rest = drop (tag8_end + 1) buf
          in if 2 \<le> length rest \<and> \<not> starts_with rest (str_bytes ''9='') then Err MalformedTag
             else case position (\<lambda>b. b = SOH) rest of
               None \<Rightarrow> Ok None
             | Some tag9_end_rel \<Rightarrow>
                 if tag9_end_rel < 2 then Panic ''slice index starts past its end''
                 else case from_utf8 (drop 2 (take tag9_end_rel rest)) of
                   None \<Rightarrow> Err MalformedTag
                 | Some body_length_str \<Rightarrow>
                     (case parse_unsigned 64 body_length_str of
                        None \<Rightarrow> Err MalformedTag
                      | Some body_length \<Rightarrow>
                          let header_len = tag8_end + 1 + tag9_end_rel + 1;
                              checksum_trailer_len = 7
                          in case usize_add p header_len body_length of
                               Err e \<Rightarrow> Err e
                             | Panic m \<Rightarrow> Panic m
                             | Ok n \<Rightarrow>
                                 (case usize_add p n checksum_trailer_len of
                                    Err e \<Rightarrow> Err e
                                  | Panic m \<Rightarrow> Panic m
                                  | Ok total_len \<Rightarrow>
                                      if length buf < total_len then Ok None else Ok (Some total_len))))"

text \<open>The header of a buffer: BeginString, the digits of BodyLength, and what follows.\<close>

definition header_bytes :: "bytes \<Rightarrow> bytes \<Rightarrow> bytes" where
  "header_bytes b ds = str_bytes ''8='' @ b @ [SOH] @ str_bytes ''9='' @ ds @ [SOH]"

definition frame :: "bytes \<Rightarrow> bytes \<Rightarrow> bytes \<Rightarrow> bytes" where
  "frame b body trailer = header_bytes b (dec_bytes (length body)) @ body @ trailer"

definition total_len :: "profile \<Rightarrow> nat \<Rightarrow> nat \<Rightarrow> (nat, parse_error) outcome" where
  "total_len p header_len body_length =
     (case usize_add p header_len body_length of
        Ok n \<Rightarrow> usize_add p n 7 | Err e \<Rightarrow> Err e | Panic m \<Rightarrow> Panic m)"

section \<open>The four kinds of buffers\<close>

lemma tag8_9_bytes: "str_bytes ''8='' = [0x38, 0x3D]" "str_bytes ''9='' = [0x39, 0x3D]"
  by (simp_all add: str_bytes_def of_char_def)

lemma SOH_neq [simp]: "SOH \<noteq> 0x38" "SOH \<noteq> 0x39" "SOH \<noteq> 0x3D" "0x38 \<noteq> SOH" "0x39 \<noteq> SOH" "0x3D \<noteq> SOH"
  by (simp_all add: SOH_def)

lemma length_header [simp]: "length (header_bytes b ds) = length b + length ds + 6"
  by (simp add: header_bytes_def tag8_9_bytes)

text \<open>A complete header decides everything.\<close>

lemma find_header:
  assumes "SOH \<notin> set b" and "SOH \<notin> set ds"
  shows "find_complete_message p (header_bytes b ds @ rest) =
    (case parse_unsigned 64 ds of
       None \<Rightarrow> Err MalformedTag
     | Some len \<Rightarrow>
         (case total_len p (length b + length ds + 6) len of
            Ok n \<Rightarrow> Ok (if length (header_bytes b ds @ rest) < n then None else Some n)
          | Err e \<Rightarrow> Err e | Panic m \<Rightarrow> Panic m))"
proof -
  let ?P = "\<lambda>c. c = SOH"
  have p8: "position ?P (b @ SOH # xs) = Some (length b)" for xs
    using assms(1) by (intro position_append_first) auto
  have p9: "position ?P (ds @ SOH # xs) = Some (length ds)" for xs
    using assms(2) by (intro position_append_first) auto
  note view = find_complete_message_def header_bytes_def tag8_9_bytes p8 p9 starts_with_def Let_def
  show ?thesis
  proof (cases "parse_unsigned 64 ds")
    case None
    then show ?thesis by (cases "utf8_valid ds") (simp_all add: view from_utf8_def)
  next
    case (Some len)
    then have "from_utf8 ds = Some ds" by (rule parse_unsigned_utf8)
    moreover have six: "length b + length ds + 6 = Suc (Suc (Suc (Suc (Suc (Suc (length b + length ds))))))"
      by simp
    ultimately show ?thesis
      unfolding six using Some by (simp add: view total_len_def split: outcome.split)
  qed
qed

text \<open>Where there is none, the answer is one of three.\<close>

definition partial_header :: "bytes \<Rightarrow> bool" where
  "partial_header buf \<longleftrightarrow>
     length buf < 2
     \<or> (\<exists>b. buf = str_bytes ''8='' @ b \<and> SOH \<notin> set b)
     \<or> (\<exists>b r. buf = str_bytes ''8='' @ b @ SOH # r \<and> SOH \<notin> set b \<and> SOH \<notin> set r
               \<and> (length r < 2 \<or> starts_with r (str_bytes ''9='')))"

definition bad_header :: "bytes \<Rightarrow> bool" where
  "bad_header buf \<longleftrightarrow>
     2 \<le> length buf
     \<and> (\<not> starts_with buf (str_bytes ''8='')
        \<or> (\<exists>b r. buf = str_bytes ''8='' @ b @ SOH # r \<and> SOH \<notin> set b
                  \<and> 2 \<le> length r \<and> \<not> starts_with r (str_bytes ''9='')))"

definition lone_soh :: "bytes \<Rightarrow> bool" where
  "lone_soh buf \<longleftrightarrow> (\<exists>b. buf = str_bytes ''8='' @ b @ [SOH, SOH] \<and> SOH \<notin> set b)"

lemma buffer_kinds:
  obtains (complete) b ds rest where "buf = header_bytes b ds @ rest" "SOH \<notin> set b" "SOH \<notin> set ds"
  | (partial) "partial_header buf" | (bad) "bad_header buf" | (lone) "lone_soh buf"
proof (cases "length buf < 2 \<or> \<not> starts_with buf (str_bytes ''8='')")
  case True
  then show thesis using partial bad by (fastforce simp: partial_header_def bad_header_def)
next
  case False
  then obtain xs where xs: "buf = str_bytes ''8='' @ xs" by (auto simp: starts_with_iff)
  show thesis
  proof (cases "SOH \<in> set xs")
    case False
    then show thesis using partial xs by (auto simp: partial_header_def)
  next
    case True
    then obtain b r where b: "xs = b @ SOH # r" "SOH \<notin> set b" by (meson split_list_first)
    show thesis
    proof (cases "2 \<le> length r")
      case True
      show thesis
      proof (cases "starts_with r (str_bytes ''9='')")
        case False
        then show thesis using bad b True by (auto simp: bad_header_def xs)
      next
        case True
        then obtain ys where ys: "r = str_bytes ''9='' @ ys" by (auto simp: starts_with_iff)
        show thesis
        proof (cases "SOH \<in> set ys")
          case True
          then obtain ds rest where "ys = ds @ SOH # rest" "SOH \<notin> set ds" by (meson split_list_first)
          then show thesis using complete [of b ds rest] b by (simp add: xs ys header_bytes_def)
        next
          case False
          then have "SOH \<notin> set r" by (simp add: ys tag8_9_bytes)
          then show thesis using partial b True by (auto simp: partial_header_def xs)
        qed
      qed
    next
      case False
      then consider "r = [SOH]" | "SOH \<notin> set r" by (cases r) (auto simp: Suc_le_eq)
      then show thesis
      proof cases
        case 1
        then show thesis using lone b by (auto simp: lone_soh_def xs)
      next
        case 2
        have "length r < 2" using False by simp
        with 2 b(2) have "partial_header buf" unfolding partial_header_def xs b(1) by blast
        then show thesis by (rule partial)
      qed
    qed
  qed
qed

lemma find_partial: "partial_header buf \<Longrightarrow> find_complete_message p buf = Ok None"
  unfolding partial_header_def
proof (elim disjE exE conjE)
  fix b assume "buf = str_bytes ''8='' @ b" and "SOH \<notin> set b"
  moreover from this have "position (\<lambda>c. c = SOH) b = None" by auto
  ultimately show ?thesis
    by (simp add: find_complete_message_def tag8_9_bytes starts_with_def del: position_None_iff)
next
  fix b r assume "buf = str_bytes ''8='' @ b @ SOH # r" and b: "SOH \<notin> set b" "SOH \<notin> set r"
    and "length r < 2"
  moreover have "position (\<lambda>c. c = SOH) (b @ SOH # r) = Some (length b)"
    using b by (intro position_append_first) auto
  moreover have "position (\<lambda>c. c = SOH) r = None" using b(2) by auto
  ultimately show ?thesis
    by (simp add: find_complete_message_def tag8_9_bytes starts_with_def Let_def del: position_None_iff)
next
  fix b r assume "buf = str_bytes ''8='' @ b @ SOH # r" and b: "SOH \<notin> set b" "SOH \<notin> set r"
    and "starts_with r (str_bytes ''9='')"
  moreover have "position (\<lambda>c. c = SOH) (b @ SOH # r) = Some (length b)"
    using b by (intro position_append_first) auto
  moreover have "position (\<lambda>c. c = SOH) r = None" using b(2) by auto
  ultimately show ?thesis
    by (simp add: find_complete_message_def tag8_9_bytes starts_with_def Let_def del: position_None_iff)
qed (simp add: find_complete_message_def)

lemma find_bad: "bad_header buf \<Longrightarrow> find_complete_message p buf = Err MalformedTag"
  unfolding bad_header_def
proof (elim disjE exE conjE)
  fix b r assume "buf = str_bytes ''8='' @ b @ SOH # r" and b: "SOH \<notin> set b"
    and "2 \<le> length r" "\<not> starts_with r (str_bytes ''9='')"
  moreover have "position (\<lambda>c. c = SOH) (b @ SOH # r) = Some (length b)"
    using b by (intro position_append_first) auto
  ultimately show ?thesis by (simp add: find_complete_message_def tag8_9_bytes starts_with_def Let_def)
qed (simp add: find_complete_message_def)

lemma find_lone: "lone_soh buf \<Longrightarrow> is_panic (find_complete_message p buf)"
  unfolding lone_soh_def
proof (elim exE conjE)
  fix b assume "buf = str_bytes ''8='' @ b @ [SOH, SOH]" and b: "SOH \<notin> set b"
  moreover have "position (\<lambda>c. c = SOH) (b @ [SOH, SOH]) = Some (length b)"
    using b by (intro position_append_first) auto
  ultimately show ?thesis by (simp add: find_complete_message_def tag8_9_bytes starts_with_def Let_def)
qed

section \<open>The length arithmetic\<close>

lemma total_len_exact [simp]: "h + len + 7 < 2 ^ 64 \<Longrightarrow> total_len p h len = Ok (h + len + 7)"
  by (simp add: total_len_def)

lemma total_len_Debug:
  "total_len Debug h len = (if h + len + 7 < 2 ^ 64 then Ok (h + len + 7)
     else Panic ''attempt to add with overflow'')"
  by (simp add: total_len_def usize_add_def)

lemma usize_add_Release: "usize_add Release a b = Ok ((a + b) mod 2 ^ 64)"
  by (simp add: usize_add_def)

lemma total_len_cases:
  obtains "h + len + 7 < 2 ^ 64" "total_len p h len = Ok (h + len + 7)"
  | "2 ^ 64 \<le> h + len + 7" "p = Debug" "is_panic (total_len p h len)"
  | "2 ^ 64 \<le> h + len + 7" "p = Release" "total_len p h len = Ok ((h + len + 7) mod 2 ^ 64)"
proof (cases "h + len + 7 < 2 ^ 64")
  case True
  then show thesis using that(1) by simp
next
  case False
  show thesis
  proof (cases p)
    case Debug
    then show thesis using that(2) False by (simp add: total_len_Debug)
  next
    case Release
    have "total_len Release h len = Ok ((h + len + 7) mod 2 ^ 64)"
      by (simp add: total_len_def usize_add_Release mod_add_left_eq)
    then show thesis using that(3) False Release by simp
  qed
qed

lemma framed_iff:
  "find_complete_message p buf = Ok (Some n) \<longleftrightarrow>
     (\<exists>b ds rest len. buf = header_bytes b ds @ rest \<and> SOH \<notin> set b \<and> SOH \<notin> set ds
        \<and> parse_unsigned 64 ds = Some len \<and> total_len p (length b + length ds + 6) len = Ok n
        \<and> n \<le> length buf)" (is "?found \<longleftrightarrow> ?shape")
proof
  assume found: ?found
  show ?shape
  proof (cases rule: buffer_kinds [of buf])
    case (complete b ds rest)
    with found show ?thesis
      by (auto simp: find_header split: option.splits outcome.splits if_splits)
  next
    case lone
    then show ?thesis using find_lone [of buf p] found by simp
  qed (use found find_partial find_bad in fastforce)+
next
  assume ?shape
  then show ?found by (auto simp: find_header)
qed

lemma take_header_partial:
  assumes "k < length (header_bytes b ds)" and "SOH \<notin> set b" and "SOH \<notin> set ds"
  shows "partial_header (take k (header_bytes b ds))"
proof -
  let ?r = "str_bytes ''9='' @ ds" and ?j = "k - 3 - length b"
  consider "k < 2" | "2 \<le> k" "k \<le> length b + 2" | "length b + 2 < k" by linarith
  then show ?thesis
  proof cases
    case 1
    then show ?thesis by (simp add: partial_header_def)
  next
    case 2
    then have "take k (header_bytes b ds) = str_bytes ''8='' @ take (k - 2) b"
      by (simp add: header_bytes_def tag8_9_bytes take_Cons' numeral_2_eq_2)
    moreover have "SOH \<notin> set (take (k - 2) b)" using assms(2) by (meson in_set_takeD)
    ultimately show ?thesis by (auto simp: partial_header_def)
  next
    case 3
    let ?a = "str_bytes ''8='' @ b @ [SOH]"
    have "k = length ?a + ?j" and j: "?j \<le> length ?r" using 3 assms(1) by (simp_all add: tag8_9_bytes)
    then have "take k (header_bytes b ds) = take (length ?a + ?j) (?a @ ?r @ [SOH])"
      by (simp add: header_bytes_def)
    also have "\<dots> = ?a @ take ?j ?r" using j by (rule take_into_second)
    finally have "take k (header_bytes b ds) = str_bytes ''8='' @ b @ SOH # take ?j ?r" by simp
    moreover have "SOH \<notin> set ?r" using assms(3) by (simp add: tag8_9_bytes)
    then have "SOH \<notin> set (take ?j ?r)" by (meson in_set_takeD)
    moreover have "length (take ?j ?r) < 2 \<or> starts_with (take ?j ?r) (str_bytes ''9='')"
      by (cases "?j < 2") (auto simp: starts_with_def tag8_9_bytes min_def)
    ultimately show ?thesis using assms(2) unfolding partial_header_def by blast
  qed
qed

text \<open>Answers do not change when more bytes arrive, except ``need more''.\<close>

lemma bad_header_append: "bad_header buf \<Longrightarrow> bad_header (buf @ xs)"
  unfolding bad_header_def
proof (elim conjE disjE exE)
  assume "2 \<le> length buf" and "\<not> starts_with buf (str_bytes ''8='')"
  then show "2 \<le> length (buf @ xs) \<and> (\<not> starts_with (buf @ xs) (str_bytes ''8='') \<or>
      (\<exists>b r. buf @ xs = str_bytes ''8='' @ b @ SOH # r \<and> SOH \<notin> set b \<and> 2 \<le> length r
             \<and> \<not> starts_with r (str_bytes ''9='')))"
    by (simp add: not_starts_with_append tag8_9_bytes)
next
  fix b r assume "2 \<le> length buf" and buf: "buf = str_bytes ''8='' @ b @ SOH # r" and "SOH \<notin> set b"
    and r: "2 \<le> length r" "\<not> starts_with r (str_bytes ''9='')"
  moreover have "\<not> starts_with (r @ xs) (str_bytes ''9='')"
    using r by (intro not_starts_with_append) (simp_all add: tag8_9_bytes)
  ultimately show "2 \<le> length (buf @ xs) \<and> (\<not> starts_with (buf @ xs) (str_bytes ''8='') \<or>
      (\<exists>b r. buf @ xs = str_bytes ''8='' @ b @ SOH # r \<and> SOH \<notin> set b \<and> 2 \<le> length r
             \<and> \<not> starts_with r (str_bytes ''9='')))"
    by (intro conjI disjI2 exI [where x = b] exI [where x = "r @ xs"]) simp_all
qed

lemma find_append_Some:
  "find_complete_message p buf = Ok (Some n) \<Longrightarrow> find_complete_message p (buf @ xs) = Ok (Some n)"
  by (fastforce simp: framed_iff)

lemma total_len_not_Err: "total_len p h len \<noteq> Err e"
  by (cases rule: total_len_cases [of h len p]) auto

lemma find_append_Err:
  assumes "find_complete_message p buf = Err e"
  shows "find_complete_message p (buf @ xs) = Err e"
proof (cases rule: buffer_kinds [of buf])
  case (complete b ds rest)
  from assms have "parse_unsigned 64 ds = None" "e = MalformedTag"
    using complete total_len_not_Err by (auto simp: find_header split: option.splits outcome.splits)
  with complete show ?thesis using find_header [of b ds p "rest @ xs"] by simp
next
  case partial
  with assms show ?thesis by (simp add: find_partial)
next
  case bad
  with assms show ?thesis by (simp add: find_bad bad_header_append)
next
  case lone
  from find_lone [OF this, of p] assms show ?thesis by simp
qed

lemma find_frame:
  assumes "SOH \<notin> set b" and "length trailer = 7" and "length (frame b body trailer) < 2 ^ 64"
  shows "find_complete_message p (frame b body trailer @ xs) = Ok (Some (length (frame b body trailer)))"
proof -
  have "parse_unsigned 64 (dec_bytes (length body)) = Some (length body)"
    using assms(3) by (intro parse_unsigned_dec) (simp add: frame_def)
  moreover have "total_len p (length b + length (dec_bytes (length body)) + 6) (length body)
      = Ok (length (frame b body trailer))"
    using assms(2,3) by (simp add: frame_def add.commute add.left_commute)
  ultimately show ?thesis
    using find_header [OF assms(1) SOH_not_in_dec(1) [of "length body"], of p "body @ trailer @ xs"]
    by (simp add: frame_def)
qed

lemma find_frame_prefix:
  assumes "SOH \<notin> set b" and "length trailer = 7" and "length (frame b body trailer) < 2 ^ 64"
    and k: "k < length (frame b body trailer)"
  shows "find_complete_message p (take k (frame b body trailer)) = Ok None"
proof -
  let ?ds = "dec_bytes (length body)"
  have len: "parse_unsigned 64 ?ds = Some (length body)"
    using assms(3) by (intro parse_unsigned_dec) (simp add: frame_def)
  have tot: "total_len p (length b + length ?ds + 6) (length body) = Ok (length (frame b body trailer))"
    using assms(2,3) by (simp add: frame_def add.commute add.left_commute)
  note hdr = find_header [OF assms(1) SOH_not_in_dec(1) [of "length body"], of p]
  show ?thesis
  proof (cases "k < length (header_bytes b ?ds)")
    case True
    then show ?thesis
      using find_partial [OF take_header_partial [OF True assms(1) SOH_not_in_dec(1)]] by (simp add: frame_def)
  next
    case False
    then have "take k (frame b body trailer) = header_bytes b ?ds @ take (k - length (header_bytes b ?ds)) (body @ trailer)"
      by (simp add: frame_def)
    from hdr [of "take (k - length (header_bytes b ?ds)) (body @ trailer)", folded this] len tot k
    show ?thesis by simp
  qed
qed

section \<open>Properties\<close>

text \<open>
  C13: a message is framed exactly, however it arrives: with the whole message in the buffer, and
  anything after it, its length is found; with any proper prefix of it, more bytes are asked for,
  and nothing fails.
\<close>

theorem framing_exact:
  assumes "SOH \<notin> set b" and "length trailer = 7" and "length (frame b body trailer) < 2 ^ 64"
  shows "find_complete_message p (frame b body trailer @ xs) = Ok (Some (length (frame b body trailer)))
       \<and> (\<forall>k < length (frame b body trailer). find_complete_message p (take k (frame b body trailer)) = Ok None)"
  using assms by (simp add: find_frame find_frame_prefix)

theorem framing_exact_witness:
  "let m = frame (str_bytes ''FIX.4.2'') (str_bytes ''35=0'' @ [SOH]) (str_bytes ''10=000'' @ [SOH])
   in find_complete_message Release (m @ m) = Ok (Some (length m))
      \<and> find_complete_message Debug (take 5 m) = Ok None"
proof -
  let ?b = "str_bytes ''FIX.4.2''" and ?t = "str_bytes ''10=000'' @ [SOH]"
  let ?m = "frame ?b (str_bytes ''35=0'' @ [SOH]) ?t"
  have b: "SOH \<notin> set ?b" by (simp add: str_bytes_def SOH_def of_char_def)
  have t: "length ?t = 7" by (simp add: str_bytes_def)
  have l: "length ?m < 2 ^ 64" "5 < length ?m"
    by (simp_all add: frame_def str_bytes_def dec_bytes_def dec_digits.simps)
  from framing_exact [OF b t l(1), of Release ?m] framing_exact [OF b t l(1), of Debug "[]"] l(2)
  show ?thesis by (simp add: Let_def)
qed

text \<open>
  An answer stands: neither a found message nor a framing error is revised when more bytes
  arrive.
\<close>

lemma framing_stable:
  "(find_complete_message p buf = Ok (Some n) \<longrightarrow> find_complete_message p (buf @ xs) = Ok (Some n))
   \<and> (find_complete_message p buf = Err e \<longrightarrow> find_complete_message p (buf @ xs) = Err e)"
  by (simp add: find_append_Some find_append_Err)

text \<open>
  What is found is there: the length never exceeds the buffer, and with overflow checks the
  bytes up to it are a header whose BodyLength counts the body, the body, and seven bytes more. The
  seven bytes are not inspected.
\<close>

lemma framing_sound:
  assumes "find_complete_message p buf = Ok (Some n)"
  shows "n \<le> length buf \<and> (p = Debug \<longrightarrow>
     (\<exists>b ds body trailer. take n buf = header_bytes b ds @ body @ trailer \<and> SOH \<notin> set b \<and> SOH \<notin> set ds
        \<and> parse_unsigned 64 ds = Some (length body) \<and> length trailer = 7))"
proof -
  obtain b ds rest len where buf: "buf = header_bytes b ds @ rest" "SOH \<notin> set b" "SOH \<notin> set ds"
    and len: "parse_unsigned 64 ds = Some len" and n: "total_len p (length b + length ds + 6) len = Ok n"
    and le: "n \<le> length buf"
    using assms by (auto simp: framed_iff)
  have "\<exists>body trailer. take n buf = header_bytes b ds @ body @ trailer \<and> len = length body \<and> length trailer = 7"
    if "p = Debug"
  proof -
    have nn: "n = length (header_bytes b ds) + len + 7"
      using n that by (auto simp: total_len_Debug split: if_splits)
    have "take n buf = header_bytes b ds @ take (len + 7) rest"
      unfolding buf(1) nn by (simp del: length_header add: add.assoc)
    then have "take n buf = header_bytes b ds @ take len rest @ take 7 (drop len rest)"
      by (simp only: take_add)
    moreover have "length (take len rest) = len" "length (take 7 (drop len rest)) = 7"
      using le nn by (simp_all add: buf(1))
    ultimately show ?thesis by metis
  qed
  with le buf(2,3) len show ?thesis by blast
qed

text \<open>
  C34: exactly when framing panics: in either profile on a BeginString followed by one separator and
  nothing else, where the slice of BodyLength's digits would end before it starts; and with overflow
  checks on a BodyLength that, with the header and the trailer, does not fit \<^verbatim>\<open>usize\<close>.
\<close>

theorem framing_panics_iff:
  "is_panic (find_complete_message p buf) \<longleftrightarrow>
     (\<exists>b. buf = str_bytes ''8='' @ b @ [SOH, SOH] \<and> SOH \<notin> set b)
     \<or> p = Debug \<and> (\<exists>b ds rest len. buf = header_bytes b ds @ rest \<and> SOH \<notin> set b \<and> SOH \<notin> set ds
           \<and> parse_unsigned 64 ds = Some len \<and> 2 ^ 64 \<le> length (header_bytes b ds) + len + 7)"
  (is "?panic \<longleftrightarrow> ?lone \<or> ?big")
proof
  assume panic: ?panic
  show "?lone \<or> ?big"
  proof (cases rule: buffer_kinds [of buf])
    case (complete b ds rest)
    obtain len where len: "parse_unsigned 64 ds = Some len"
      and tot: "is_panic (total_len p (length b + length ds + 6) len)"
      using panic complete by (auto simp: find_header split: option.splits outcome.splits)
    from tot have "p = Debug" "2 ^ 64 \<le> length (header_bytes b ds) + len + 7"
      by (cases rule: total_len_cases [of "length b + length ds + 6" len p]; simp)+
    with complete len show ?thesis by blast
  qed (use panic in \<open>simp_all add: find_partial find_bad lone_soh_def\<close>)
next
  assume "?lone \<or> ?big"
  then show ?panic
  proof
    assume ?lone
    then show ?panic by (intro find_lone) (simp add: lone_soh_def)
  next
    assume ?big
    then show ?panic by (auto simp: find_header total_len_Debug)
  qed
qed

end
