(* ===== verification/Fix_Adapter.thy ===== *)
theory Fix_Adapter
  imports Core_Types Fix_Framing
begin

text \<open>
  \<^verbatim>\<open>adapters/src/fix/adapter.rs\<close>: the four semantic faults as implementations of
  \<^verbatim>\<open>ProtocolAdapter\<close>. The throttle's counter is an atomic; \<^verbatim>\<open>fetch_add\<close> wraps, the addition
  after it is checked in a debug build, so its \<open>intercept\<close> takes the build profile. The locale
  \<open>protocol_adapter\<close> is the contract the proxy relies on; the sum of the four adapters satisfies it.
\<close>

section \<open>Definitions\<close>

text \<open>\<^verbatim>\<open>derive(Debug)\<close> of \<^verbatim>\<open>ParseError\<close>, used in the texts of errors.\<close>

fun parse_error_debug :: "parse_error \<Rightarrow> string" where
  "parse_error_debug Empty = ''Empty''"
| "parse_error_debug MissingSoh = ''MissingSoh''"
| "parse_error_debug MalformedTag = ''MalformedTag''"

definition rejected_by :: "string \<Rightarrow> ('a, parse_error) outcome \<Rightarrow> ('a, harness_error) outcome" where
  "rejected_by nm r = map_err (\<lambda>e. AdapterRejected nm (parse_error_debug e)) r"

definition FixSilentReject_name :: string where
  "FixSilentReject_name = ''fix-silent-reject''"

definition FixSilentReject_intercept :: "raw_message \<Rightarrow> (intercept_action, harness_error) outcome" where
  "FixSilentReject_intercept msg =
     (if msg_direction msg \<noteq> Inbound then Ok Forward
      else case rejected_by FixSilentReject_name (parse (msg_bytes msg)) of
        Err e \<Rightarrow> Err e
      | Panic m \<Rightarrow> Panic m
      | Ok parsed \<Rightarrow>
          let is_rejection =
                FixMessage_is parsed TAG_MSG_TYPE MSG_TYPE_REJECT
                \<or> FixMessage_is parsed TAG_MSG_TYPE MSG_TYPE_ORDER_CANCEL_REJECT
                \<or> FixMessage_is parsed TAG_MSG_TYPE MSG_TYPE_EXECUTION_REPORT
                  \<and> (FixMessage_is parsed TAG_ORD_STATUS ORD_STATUS_REJECTED
                     \<or> FixMessage_is parsed TAG_EXEC_TYPE EXEC_TYPE_REJECTED)
          in Ok (if is_rejection then Drop else Forward))"

definition FixAckWithoutExecution_name :: string where
  "FixAckWithoutExecution_name = ''fix-ack-without-execution''"

definition FixAckWithoutExecution_intercept :: "raw_message \<Rightarrow> (intercept_action, harness_error) outcome" where
  "FixAckWithoutExecution_intercept msg =
     (if msg_direction msg \<noteq> Inbound then Ok Forward
      else case rejected_by FixAckWithoutExecution_name (parse (msg_bytes msg)) of
        Err e \<Rightarrow> Err e
      | Panic m \<Rightarrow> Panic m
      | Ok parsed \<Rightarrow>
          if \<not> FixMessage_is parsed TAG_MSG_TYPE MSG_TYPE_EXECUTION_REPORT then Ok Forward
          else let is_fill =
                     FixMessage_is parsed TAG_EXEC_TYPE EXEC_TYPE_TRADE
                     \<or> FixMessage_is parsed TAG_ORD_STATUS ORD_STATUS_PARTIALLY_FILLED
                     \<or> FixMessage_is parsed TAG_ORD_STATUS ORD_STATUS_FILLED
               in Ok (if is_fill then Drop else Forward))"

record rate_limit_throttle =
  threshold :: u64
  throttle_count :: u64

definition FixRateLimitThrottle_new :: "u64 \<Rightarrow> rate_limit_throttle" where
  "FixRateLimitThrottle_new thr = \<lparr>threshold = thr, throttle_count = 0\<rparr>"

definition FixRateLimitThrottle_name :: string where
  "FixRateLimitThrottle_name = ''fix-rate-limit-throttle''"

definition FixRateLimitThrottle_intercept ::
  "profile \<Rightarrow> rate_limit_throttle \<Rightarrow> raw_message
     \<Rightarrow> (intercept_action, harness_error) outcome \<times> rate_limit_throttle" where
  "FixRateLimitThrottle_intercept p a msg =
     (if msg_direction msg \<noteq> Outbound then (Ok Forward, a)
      else let old = throttle_count a;
               a' = a\<lparr>throttle_count := old + 1\<rparr>
           in if p = Debug \<and> old = - 1 then (Panic ''attempt to add with overflow'', a')
              else let seen = old + 1
                   in (Ok (if threshold a < seen then Drop else Forward), a'))"

record price_mutation =
  mutated_price :: bytes

definition FixExecutionReportPriceMutation_new :: "bytes \<Rightarrow> price_mutation" where
  "FixExecutionReportPriceMutation_new price = \<lparr>mutated_price = price\<rparr>"

definition FixExecutionReportPriceMutation_name :: string where
  "FixExecutionReportPriceMutation_name = ''fix-execution-report-price-mutation''"

definition FixExecutionReportPriceMutation_intercept ::
  "price_mutation \<Rightarrow> raw_message \<Rightarrow> (intercept_action, harness_error) outcome" where
  "FixExecutionReportPriceMutation_intercept a msg =
     (if msg_direction msg \<noteq> Inbound then Ok Forward
      else case rejected_by FixExecutionReportPriceMutation_name (parse (msg_bytes msg)) of
        Err e \<Rightarrow> Err e
      | Panic m \<Rightarrow> Panic m
      | Ok parsed \<Rightarrow>
          if \<not> FixMessage_is parsed TAG_MSG_TYPE MSG_TYPE_EXECUTION_REPORT
             \<or> FixMessage_get parsed TAG_PRICE = None
          then Ok Forward
          else (case rejected_by FixExecutionReportPriceMutation_name
                       (set_field (msg_bytes msg) TAG_PRICE (mutated_price a)) of
                  Err e \<Rightarrow> Err e
                | Panic m \<Rightarrow> Panic m
                | Ok mutated \<Rightarrow> Ok (Mutate mutated)))"

text \<open>The \<^verbatim>\<open>dyn ProtocolAdapter\<close> values of this crate.\<close>

datatype fix_adapter =
    FixSilentReject
  | FixAckWithoutExecution
  | FixRateLimitThrottle rate_limit_throttle
  | FixExecutionReportPriceMutation price_mutation

fun fix_adapter_name :: "fix_adapter \<Rightarrow> string" where
  "fix_adapter_name FixSilentReject = FixSilentReject_name"
| "fix_adapter_name FixAckWithoutExecution = FixAckWithoutExecution_name"
| "fix_adapter_name (FixRateLimitThrottle a) = FixRateLimitThrottle_name"
| "fix_adapter_name (FixExecutionReportPriceMutation a) = FixExecutionReportPriceMutation_name"

fun fix_adapter_intercept ::
  "profile \<Rightarrow> fix_adapter \<Rightarrow> raw_message \<Rightarrow> (intercept_action, harness_error) outcome \<times> fix_adapter" where
  "fix_adapter_intercept p FixSilentReject msg = (FixSilentReject_intercept msg, FixSilentReject)"
| "fix_adapter_intercept p FixAckWithoutExecution msg =
     (FixAckWithoutExecution_intercept msg, FixAckWithoutExecution)"
| "fix_adapter_intercept p (FixRateLimitThrottle a) msg =
     (case FixRateLimitThrottle_intercept p a msg of (r, a') \<Rightarrow> (r, FixRateLimitThrottle a'))"
| "fix_adapter_intercept p (FixExecutionReportPriceMutation a) msg =
     (FixExecutionReportPriceMutation_intercept a msg, FixExecutionReportPriceMutation a)"

definition fix_ops :: "profile \<Rightarrow> fix_adapter adapter_ops" where
  "fix_ops p = \<lparr>op_name = fix_adapter_name, op_intercept = fix_adapter_intercept p\<rparr>"

text \<open>The direction an adapter works on, and the configurations whose output is well framed.\<close>

fun fault_side :: "fix_adapter \<Rightarrow> direction" where
  "fault_side (FixRateLimitThrottle a) = Outbound"
| "fault_side _ = Inbound"

fun adapter_ok :: "fix_adapter \<Rightarrow> bool" where
  "adapter_ok (FixExecutionReportPriceMutation a) \<longleftrightarrow> SOH \<notin> set (mutated_price a)"
| "adapter_ok _ \<longleftrightarrow> True"

definition is_frame :: "bytes \<Rightarrow> bool" where
  "is_frame bs \<longleftrightarrow> (\<exists>b body trailer. bs = frame b body trailer \<and> SOH \<notin> set b \<and> length trailer = 7)"

text \<open>An adapter asked about one message after another.\<close>

fun intercept_all ::
  "'a adapter_ops \<Rightarrow> 'a \<Rightarrow> raw_message list \<Rightarrow> (intercept_action, harness_error) outcome list" where
  "intercept_all ops a [] = []"
| "intercept_all ops a (m # ms) =
     (case op_intercept ops a m of (r, a') \<Rightarrow> r # intercept_all ops a' ms)"

section \<open>The contract of an adapter\<close>

text \<open>
  What the proxy relies on: an adapter leaves the other direction alone, keeps its name, its side
  and its configuration, never delays, and whatever it writes instead of a message is one message.
\<close>

locale protocol_adapter =
  fixes ops :: "'a adapter_ops"
    and ok :: "'a \<Rightarrow> bool"
    and side :: "'a \<Rightarrow> direction"
  assumes other_side: "msg_direction m \<noteq> side a \<Longrightarrow> op_intercept ops a m = (Ok Forward, a)"
    and keeps: "op_intercept ops a m = (r, a') \<Longrightarrow>
      op_name ops a' = op_name ops a \<and> side a' = side a \<and> ok a' = ok a"
    and no_delay: "op_intercept ops a m \<noteq> (Ok (Delay ns), a')"
    and mutate_frames: "op_intercept ops a m = (Ok (Mutate bs), a') \<Longrightarrow> is_frame bs"
    and mutate_parses: "ok a \<Longrightarrow> op_intercept ops a m = (Ok (Mutate bs), a') \<Longrightarrow> is_ok (parse bs)"
begin

lemma intercept_all_other_side:
  "\<forall>m \<in> set ms. msg_direction m \<noteq> side a \<Longrightarrow> intercept_all ops a ms = map (\<lambda>m. Ok Forward) ms"
  by (induction ms) (simp_all add: other_side)

end

lemma rejected_by_simps [simp]:
  "rejected_by nm (Ok a) = Ok a" "rejected_by nm (Panic m) = Panic m"
  "rejected_by nm r = Panic m \<longleftrightarrow> r = Panic m" "rejected_by nm r = Ok a \<longleftrightarrow> r = Ok a"
  by (simp_all add: rejected_by_def)

lemma frame_is_frame: "SOH \<notin> set b \<Longrightarrow> length trailer = 7 \<Longrightarrow> is_frame (frame b body trailer)"
  by (auto simp: is_frame_def)

text \<open>What \<^verbatim>\<open>set_field\<close> builds is a frame, with or without the value it was to replace.\<close>

lemma encode_message_frame:
  "encode_fields (message_fields b fs) =
     frame b (encode_fields fs)
       (str_bytes ''10='' @ dec3_bytes (unat (compute_checksum (encode_fields (head_fields b fs)))) @ [SOH])"
  by (simp add: message_fields_def head_fields_def frame_def header_bytes_def tag_bytes)

lemma trailer_length: "length (str_bytes ''10='' @ dec3_bytes (unat (x :: u8)) @ [SOH]) = 7"
  using unat_u8_lt [of x] by (simp add: str_bytes_def)

lemma set_field_is_frame:
  assumes "set_field bs tag nv = Ok out"
  shows "is_frame out"
proof -
  obtain m b where m: "parse bs = Ok m" "FixMessage_get m 8 = Some b"
    and out: "out = encode_fields (message_fields b (kept_fields tag nv (msg_fields m)))"
    using assms by (rule set_field_OkD)
  have "SOH \<notin> set b" using parse_soh_free(1) [OF m(1)] m(2) by (rule get_soh_free)
  then show ?thesis unfolding out encode_message_frame by (rule frame_is_frame) (rule trailer_length)
qed

lemma set_field_parses:
  assumes "set_field bs tag nv = Ok out" and "SOH \<notin> set nv"
  shows "is_ok (parse out)"
proof -
  obtain m b where "parse bs = Ok m" "FixMessage_get m 8 = Some b"
    using assms(1) by (rule set_field_OkD)
  from parse_set_field [OF this assms(2,1)] show ?thesis by simp
qed

lemmas intercept_defs =
  FixSilentReject_intercept_def FixAckWithoutExecution_intercept_def FixRateLimitThrottle_intercept_def
  FixExecutionReportPriceMutation_intercept_def

lemma throttle_keeps:
  "FixRateLimitThrottle_intercept p a m = (r, a') \<Longrightarrow>
     threshold a' = threshold a \<and> r \<noteq> Ok (Delay ns) \<and> r \<noteq> Ok (Mutate bs)"
  by (auto simp: FixRateLimitThrottle_intercept_def Let_def split: if_splits)

lemma stateless_decisions:
  "FixSilentReject_intercept m \<noteq> Ok (Delay ns)" "FixSilentReject_intercept m \<noteq> Ok (Mutate bs)"
  "FixAckWithoutExecution_intercept m \<noteq> Ok (Delay ns)" "FixAckWithoutExecution_intercept m \<noteq> Ok (Mutate bs)"
  "FixExecutionReportPriceMutation_intercept a m \<noteq> Ok (Delay ns)"
  by (auto simp: intercept_defs Let_def split: outcome.splits)

interpretation fixad: protocol_adapter "fix_ops p" adapter_ok fault_side for p
proof
  fix m :: raw_message and a :: fix_adapter
  show "msg_direction m \<noteq> fault_side a \<Longrightarrow> op_intercept (fix_ops p) a m = (Ok Forward, a)"
    by (cases a) (simp_all add: fix_ops_def intercept_defs)
next
  fix m :: raw_message and a a' :: fix_adapter and r
  assume "op_intercept (fix_ops p) a m = (r, a')"
  then show "op_name (fix_ops p) a' = op_name (fix_ops p) a \<and> fault_side a' = fault_side a
      \<and> adapter_ok a' = adapter_ok a"
    by (cases a) (auto simp: fix_ops_def split: prod.splits)
next
  fix m :: raw_message and a a' :: fix_adapter and ns
  show "op_intercept (fix_ops p) a m \<noteq> (Ok (Delay ns), a')"
    by (cases a) (auto simp: fix_ops_def stateless_decisions split: prod.splits dest: throttle_keeps)
next
  fix m :: raw_message and a a' :: fix_adapter and bs
  assume "op_intercept (fix_ops p) a m = (Ok (Mutate bs), a')"
  then show "is_frame bs"
    by (cases a)
      (auto simp: fix_ops_def stateless_decisions FixExecutionReportPriceMutation_intercept_def
        dest: throttle_keeps intro: set_field_is_frame split: prod.splits if_splits outcome.splits)
next
  fix m :: raw_message and a a' :: fix_adapter and bs
  assume "adapter_ok a" and "op_intercept (fix_ops p) a m = (Ok (Mutate bs), a')"
  then show "is_ok (parse bs)"
    by (cases a)
      (auto simp: fix_ops_def stateless_decisions FixExecutionReportPriceMutation_intercept_def
        dest: throttle_keeps intro: set_field_parses split: prod.splits if_splits outcome.splits)
qed

section \<open>Messages the proxy hands over\<close>

lemma parse_8_prefix:
  assumes "parse (str_bytes ''8='' @ xs) = Ok m"
  shows "FixMessage_get m 8 = Some (takeWhile (\<lambda>b. b \<noteq> SOH) xs)"
proof -
  obtain ps where "split_on (\<lambda>b. b = SOH) xs = takeWhile (\<lambda>b. b \<noteq> SOH) xs # ps"
    using split_on_first [of "\<lambda>b. b = SOH" xs] by auto
  then have split: "split_on (\<lambda>b. b = SOH) (str_bytes ''8='' @ xs)
      = (dec_bytes (unat (8 :: u32)) @ 0x3D # takeWhile (\<lambda>b. b \<noteq> SOH) xs) # ps"
    by (simp add: tag8_9_bytes dec_bytes_def dec_digits.simps digit_byte_def)
  from assms show ?thesis
    unfolding parse_def split parse_fields_encoded
    by (auto simp: FixMessage_get_def split: if_splits outcome.splits)
qed

lemma set_field_no_panic:
  assumes "starts_with buf (str_bytes ''8='')"
  shows "set_field (take n buf) tag nv \<noteq> Panic m"
proof -
  obtain xs where xs: "buf = str_bytes ''8='' @ xs" using assms by (auto simp: starts_with_iff)
  consider "n = 0" | "n = 1" | k where "n = length (str_bytes ''8='') + k"
    by (cases n; cases "n - 1") (auto simp: tag8_9_bytes)
  then have "FixMessage_get mm 8 \<noteq> None" if "parse (take n buf) = Ok mm" for mm
  proof cases
    case 1
    with that show ?thesis by (simp add: parse_def)
  next
    case 2
    with that show ?thesis by (simp add: parse_def xs tag8_9_bytes)
  next
    case 3
    have "take n buf = str_bytes ''8='' @ take k xs" by (simp add: xs 3)
    with that parse_8_prefix show ?thesis by fastforce
  qed
  then show ?thesis
    by (auto simp: set_field_def Let_def parse_no_panic split: outcome.splits option.splits)
qed

lemma framed_starts_with: "find_complete_message p buf = Ok (Some n) \<Longrightarrow> starts_with buf (str_bytes ''8='')"
  by (auto simp: find_complete_message_def split: if_splits)

lemma map_of_find: "map_of fs t = map_option snd (find (\<lambda>(s, v). s = t) fs)"
  by (induction fs) auto

lemma get_map_of: "FixMessage_get \<lparr>msg_fields = fs\<rparr> t = map_of fs t"
  by (simp add: FixMessage_get_def map_of_find)

text \<open>The throttle, from any count that leaves room for the messages to come.\<close>

abbreviation outbound :: "raw_message \<Rightarrow> bool" where
  "outbound m \<equiv> msg_direction m = Outbound"

lemma throttle_step:
  assumes "throttle_count a = of_nat c" and "Suc c < 2 ^ 64" and "outbound m"
  shows "FixRateLimitThrottle_intercept p a m =
    (Ok (if unat (threshold a) < Suc c then Drop else Forward), a\<lparr>throttle_count := of_nat (Suc c)\<rparr>)"
proof -
  have c: "unat (of_nat (Suc c) :: u64) = Suc c"
    using assms(2) by (rule unat_of_nat_u64)
  then have "(of_nat (Suc c) :: u64) \<noteq> 0" by (metis Zero_not_Suc unat_0)
  then have "of_nat c \<noteq> (- 1 :: u64)" by (metis add.right_inverse add.commute of_nat_Suc)
  moreover have "threshold a < of_nat (Suc c) \<longleftrightarrow> unat (threshold a) < Suc c"
    using c by (simp only: word_less_nat_alt)
  ultimately show ?thesis
    using assms(1,3) by (simp add: FixRateLimitThrottle_intercept_def Let_def add.commute)
qed

lemma throttle_all:
  assumes "throttle_count a = of_nat c" and "c + length (filter outbound ms) < 2 ^ 64"
  shows "intercept_all (fix_ops p) (FixRateLimitThrottle a) ms =
    map (\<lambda>i. Ok (if outbound (ms ! i) \<and> unat (threshold a) < c + length (filter outbound (take (Suc i) ms))
                 then Drop else Forward)) [0..<length ms]"
  using assms
proof (induction ms arbitrary: a c)
  case (Cons m ms)
  show ?case
  proof (cases "outbound m")
    case True
    then have room: "Suc c < 2 ^ 64 \<or> ms = []" "Suc c + length (filter outbound ms) < 2 ^ 64"
      using Cons.prems(2) by auto
    then have "Suc c < 2 ^ 64" by linarith
    note step = throttle_step [OF Cons.prems(1) this True, of p]
    have "throttle_count (a\<lparr>throttle_count := of_nat (Suc c)\<rparr>) = of_nat (Suc c)" by simp
    from Cons.IH [OF this room(2)] step True show ?thesis
      by (simp add: fix_ops_def map_upt_Suc del: upt_Suc of_nat_Suc)
  next
    case False
    then have "FixRateLimitThrottle_intercept p a m = (Ok Forward, a)"
      by (simp add: FixRateLimitThrottle_intercept_def)
    with Cons.IH [OF Cons.prems(1)] Cons.prems(2) False show ?thesis
      by (simp add: fix_ops_def map_upt_Suc del: upt_Suc)
  qed
qed simp

section \<open>Properties\<close>

text \<open>What the two dropping adapters decide by: the message's first MsgType, OrdStatus and ExecType.\<close>

lemma silent_reject_decision:
  assumes "fs \<noteq> []" and "soh_free fs"
  shows "FixSilentReject_intercept \<lparr>msg_bytes = encode_fields fs, msg_direction = d\<rparr> =
    Ok (if d = Inbound \<and>
           (map_of fs 35 \<in> {Some (str_bytes ''3''), Some (str_bytes ''9'')}
            \<or> map_of fs 35 = Some (str_bytes ''8'')
              \<and> Some (str_bytes ''8'') \<in> {map_of fs 39, map_of fs 150})
        then Drop else Forward)"
  using parse_encode [OF assms(2,1)]
  by (simp add: FixSilentReject_intercept_def FixMessage_is_def get_map_of TAG_MSG_TYPE_def TAG_ORD_STATUS_def
      TAG_EXEC_TYPE_def MSG_TYPE_REJECT_def MSG_TYPE_ORDER_CANCEL_REJECT_def MSG_TYPE_EXECUTION_REPORT_def
      ORD_STATUS_REJECTED_def EXEC_TYPE_REJECTED_def Let_def eq_commute [of "Some (str_bytes ''8'')"])

lemma ack_without_execution_decision:
  assumes "fs \<noteq> []" and "soh_free fs"
  shows "FixAckWithoutExecution_intercept \<lparr>msg_bytes = encode_fields fs, msg_direction = d\<rparr> =
    Ok (if d = Inbound \<and> map_of fs 35 = Some (str_bytes ''8'')
           \<and> (map_of fs 150 = Some (str_bytes ''F'')
              \<or> map_of fs 39 \<in> {Some (str_bytes ''1''), Some (str_bytes ''2'')})
        then Drop else Forward)"
  using parse_encode [OF assms(2,1)]
  by (simp add: FixAckWithoutExecution_intercept_def FixMessage_is_def get_map_of TAG_MSG_TYPE_def
      TAG_ORD_STATUS_def TAG_EXEC_TYPE_def MSG_TYPE_EXECUTION_REPORT_def EXEC_TYPE_TRADE_def
      ORD_STATUS_PARTIALLY_FILLED_def ORD_STATUS_FILLED_def Let_def)

text \<open>
  C28: what the two dropping adapters drop. \<^verbatim>\<open>FixSilentReject\<close> drops exactly the inbound session rejects,
  cancel rejects and execution reports with a rejected status or type; \<^verbatim>\<open>FixAckWithoutExecution\<close> drops
  exactly the inbound execution reports whose ExecType is a trade or whose OrdStatus is a partial or full
  fill. Of a field that occurs more than once the first occurrence counts; every other message passes.
\<close>

theorem dropping_adapters_decide:
  assumes "fs \<noteq> []" and "soh_free fs"
  shows "FixSilentReject_intercept \<lparr>msg_bytes = encode_fields fs, msg_direction = d\<rparr> =
      Ok (if d = Inbound \<and>
             (map_of fs 35 \<in> {Some (str_bytes ''3''), Some (str_bytes ''9'')}
              \<or> map_of fs 35 = Some (str_bytes ''8'')
                \<and> Some (str_bytes ''8'') \<in> {map_of fs 39, map_of fs 150})
          then Drop else Forward)
    \<and> FixAckWithoutExecution_intercept \<lparr>msg_bytes = encode_fields fs, msg_direction = d\<rparr> =
      Ok (if d = Inbound \<and> map_of fs 35 = Some (str_bytes ''8'')
             \<and> (map_of fs 150 = Some (str_bytes ''F'')
                \<or> map_of fs 39 \<in> {Some (str_bytes ''1''), Some (str_bytes ''2'')})
          then Drop else Forward)"
  using silent_reject_decision [OF assms] ack_without_execution_decision [OF assms] by blast

theorem dropping_adapters_decide_witness:
  "FixSilentReject_intercept
     \<lparr>msg_bytes = encode_fields [(8, str_bytes ''F''), (35, str_bytes ''8''), (39, str_bytes ''2'')],
      msg_direction = Inbound\<rparr> = Ok Forward
   \<and> FixAckWithoutExecution_intercept
     \<lparr>msg_bytes = encode_fields [(8, str_bytes ''F''), (35, str_bytes ''8''), (39, str_bytes ''2'')],
      msg_direction = Inbound\<rparr> = Ok Drop"
proof -
  let ?fs = "[(8, str_bytes ''F''), (35, str_bytes ''8''), (39, str_bytes ''2'')] :: fix_fields"
  have "?fs \<noteq> []" "soh_free ?fs" by (simp_all add: soh_free_def str_bytes_def SOH_def of_char_def)
  from dropping_adapters_decide [OF this, of Inbound] show ?thesis
    by (simp add: str_bytes_def of_char_def)
qed

text \<open>
  \<^verbatim>\<open>FixRateLimitThrottle\<close> lets exactly the first \<open>threshold\<close> outbound messages through, drops
  every later one, and never touches an inbound message, however the two are interleaved.
\<close>

lemma throttle_exact:
  assumes "length (filter outbound ms) < 2 ^ 64"
  shows "intercept_all (fix_ops p) (FixRateLimitThrottle (FixRateLimitThrottle_new thr)) ms =
    map (\<lambda>i. Ok (if outbound (ms ! i) \<and> unat thr < length (filter outbound (take (Suc i) ms))
                 then Drop else Forward)) [0..<length ms]"
  using throttle_all [of "FixRateLimitThrottle_new thr" 0 ms p] assms
  by (simp add: FixRateLimitThrottle_new_def)



text \<open>
  C29: on a message the framing hands over, no adapter panics: \<^verbatim>\<open>set_field\<close>'s expectation of a tag 8
  is met whatever the rest of the message is, in either profile. The one panic left is the throttle's
  counter, in a debug build, after \<open>2 ^ 64 - 1\<close> messages.
\<close>

theorem framed_message_never_panics:
  assumes "find_complete_message p buf = Ok (Some n)"
    and "\<forall>t. a = FixRateLimitThrottle t \<longrightarrow> throttle_count t \<noteq> - 1"
  shows "\<not> is_panic (fst (fix_adapter_intercept p a \<lparr>msg_bytes = take n buf, msg_direction = d\<rparr>))"
proof (cases a)
  case (FixExecutionReportPriceMutation pm)
  have "set_field (take n buf) t v \<noteq> Panic m" for t v m
    using framed_starts_with [OF assms(1)] by (rule set_field_no_panic)
  with FixExecutionReportPriceMutation show ?thesis
    by (auto simp: is_panic_iff FixExecutionReportPriceMutation_intercept_def parse_no_panic
        split: if_splits outcome.splits)
next
  case (FixRateLimitThrottle t)
  with assms(2) show ?thesis
    by (auto simp: FixRateLimitThrottle_intercept_def Let_def split: prod.splits if_splits)
qed (auto simp: is_panic_iff intercept_defs Let_def parse_no_panic split: outcome.splits)

theorem framed_message_never_panics_witness:
  "let m = frame [] [] (replicate 7 SOH)
   in \<not> is_panic (fst (fix_adapter_intercept Debug (FixExecutionReportPriceMutation \<lparr>mutated_price = []\<rparr>)
        \<lparr>msg_bytes = take (length m) (m @ [SOH]), msg_direction = Inbound\<rparr>))"
proof -
  have "length (frame [] [] (replicate 7 SOH)) < 2 ^ 64"
    by (simp add: frame_def dec_bytes_def dec_digits.simps)
  then have "find_complete_message Debug (frame [] [] (replicate 7 SOH) @ [SOH])
      = Ok (Some (length (frame [] [] (replicate 7 SOH))))"
    by (intro find_frame) simp_all
  then show ?thesis unfolding Let_def by (rule framed_message_never_panics) simp
qed

end
