(* ===== verification/Fix_Proxy.thy ===== *)
theory Fix_Proxy
  imports Fix_Adapter
begin

text \<open>
  \<^verbatim>\<open>adapters/src/fix/proxy.rs\<close>: the man in the middle. A session is two relay threads that share
  the adapter and two atomic flags. The model is a step relation: a step is one pass of a relay's
  loop head (the shutdown check and the read), one turn of its framing loop, or somebody else setting
  a flag; the steps of the two threads interleave freely. Sockets are what the environment makes of
  them: every step says what the read returned or whether the write succeeded. A relay's state also
  keeps two histories, the bytes it has read and the messages it has handled, to speak about its
  streams. \<open>relay_chunks\<close> is one relay on its own, run to the end of a list of reads.
\<close>

section \<open>Definitions\<close>

subsection \<open>One relay\<close>

datatype relay_phase = Reading | Framing | Returned | Panicked

record relay_state =
  phase :: relay_phase
  buf :: bytes
  bytes_in :: bytes
  handled :: "(bytes \<times> intercept_action) list"

definition relay_init :: relay_state where
  "relay_init = \<lparr>phase = Reading, buf = [], bytes_in = [], handled = []\<rparr>"

text \<open>\<^verbatim>\<open>read\<close> on the source socket: a chunk holds between 1 and 4096 bytes.\<close>

datatype read_result = PeerClosed | Data bytes | WouldBlock | ReadFailed

definition relay_read :: "bool \<Rightarrow> read_result \<Rightarrow> relay_state \<Rightarrow> relay_state" where
  "relay_read shutdown r st =
     (if shutdown then st\<lparr>phase := Returned\<rparr>
      else case r of
        PeerClosed \<Rightarrow> st\<lparr>phase := Returned\<rparr>
      | Data chunk \<Rightarrow> st\<lparr>phase := Framing, buf := buf st @ chunk, bytes_in := bytes_in st @ chunk\<rparr>
      | WouldBlock \<Rightarrow> st
      | ReadFailed \<Rightarrow> st\<lparr>phase := Returned\<rparr>)"

text \<open>The decision on one message, \<open>None\<close> if the adapter panics; an adapter's error means forward.\<close>

definition decide ::
  "'a adapter_ops \<Rightarrow> direction \<Rightarrow> bool \<Rightarrow> bytes \<Rightarrow> 'a \<Rightarrow> intercept_action option \<times> 'a" where
  "decide ops dir enabled message_bytes a =
     (if enabled then
        (case op_intercept ops a \<lparr>msg_bytes = message_bytes, msg_direction = dir\<rparr> of
           (r, a') \<Rightarrow> ((case r of Ok act \<Rightarrow> Some act | Err e \<Rightarrow> Some Forward | Panic m \<Rightarrow> None), a'))
      else (Some Forward, a))"

text \<open>One turn of the \<^verbatim>\<open>while let\<close> loop. A dropped message is not written; any other decision
  writes once, and a failed write returns from the relay.\<close>

definition relay_message ::
  "profile \<Rightarrow> 'a adapter_ops \<Rightarrow> direction \<Rightarrow> bool \<Rightarrow> bool \<Rightarrow> relay_state \<Rightarrow> 'a \<Rightarrow> relay_state \<times> 'a" where
  "relay_message p ops dir enabled write_ok st a =
     (case find_complete_message p (buf st) of
        Ok (Some len) \<Rightarrow>
          let message_bytes = take len (buf st);
              st' = st\<lparr>buf := drop len (buf st)\<rparr>
          in (case decide ops dir enabled message_bytes a of
                (Some act, a') \<Rightarrow>
                  ((if act = Drop \<or> write_ok
                    then st'\<lparr>handled := handled st @ [(message_bytes, act)]\<rparr>
                    else st'\<lparr>phase := Returned\<rparr>), a')
              | (None, a') \<Rightarrow> (st'\<lparr>phase := Panicked\<rparr>, a'))
      | Ok None \<Rightarrow> (st\<lparr>phase := Reading\<rparr>, a)
      | Err e \<Rightarrow> (st\<lparr>phase := Reading\<rparr>, a)
      | Panic m \<Rightarrow> (st\<lparr>phase := Panicked\<rparr>, a))"

text \<open>What a handled message puts on the other socket.\<close>

fun written :: "bytes \<times> intercept_action \<Rightarrow> bytes" where
  "written (m, Forward) = m"
| "written (m, Drop) = []"
| "written (m, Mutate bs) = bs"
| "written (m, Delay ns) = m"

definition bytes_out :: "relay_state \<Rightarrow> bytes" where
  "bytes_out st = concat (map written (handled st))"

subsection \<open>A session\<close>

record 'a session =
  enabled :: bool
  shutdown :: bool
  adapter :: 'a
  client_to_exchange :: relay_state
  exchange_to_client :: relay_state

definition session_init :: "bool \<Rightarrow> bool \<Rightarrow> 'a \<Rightarrow> 'a session" where
  "session_init en sd a = \<lparr>enabled = en, shutdown = sd, adapter = a,
     client_to_exchange = relay_init, exchange_to_client = relay_init\<rparr>"

fun relay_of :: "direction \<Rightarrow> 'a session \<Rightarrow> relay_state" where
  "relay_of Outbound s = client_to_exchange s"
| "relay_of Inbound s = exchange_to_client s"

fun set_relay :: "direction \<Rightarrow> relay_state \<Rightarrow> 'a session \<Rightarrow> 'a session" where
  "set_relay Outbound st s = s\<lparr>client_to_exchange := st\<rparr>"
| "set_relay Inbound st s = s\<lparr>exchange_to_client := st\<rparr>"

datatype session_event = SetEnabled bool | SetShutdown | Read direction read_result | Message direction bool

inductive session_step :: "profile \<Rightarrow> 'a adapter_ops \<Rightarrow> 'a session \<Rightarrow> session_event \<Rightarrow> 'a session \<Rightarrow> bool"
  for p :: profile and ops :: "'a adapter_ops" where
  set_enabled: "session_step p ops s (SetEnabled b) (s\<lparr>enabled := b\<rparr>)"
| set_shutdown: "session_step p ops s SetShutdown (s\<lparr>shutdown := True\<rparr>)"
| read: "phase (relay_of d s) = Reading \<Longrightarrow> (\<And>chunk. r = Data chunk \<Longrightarrow> chunk \<noteq> [] \<and> length chunk \<le> 4096) \<Longrightarrow>
    session_step p ops s (Read d r) (set_relay d (relay_read (shutdown s) r (relay_of d s)) s)"
| message: "phase (relay_of d s) = Framing \<Longrightarrow>
    relay_message p ops d (enabled s) write_ok (relay_of d s) (adapter s) = (st, a) \<Longrightarrow>
    session_step p ops s (Message d write_ok) (set_relay d st (s\<lparr>adapter := a\<rparr>))"

inductive session_run :: "profile \<Rightarrow> 'a adapter_ops \<Rightarrow> 'a session \<Rightarrow> session_event list \<Rightarrow> 'a session \<Rightarrow> bool"
  for p :: profile and ops :: "'a adapter_ops" and s :: "'a session" where
  nil: "session_run p ops s [] s"
| snoc: "session_run p ops s es s' \<Longrightarrow> session_step p ops s' e s'' \<Longrightarrow> session_run p ops s (es @ [e]) s''"

text \<open>\<^verbatim>\<open>run_session\<close> returns when both threads have ended.\<close>

definition session_over :: "'a session \<Rightarrow> bool" where
  "session_over s \<longleftrightarrow> (\<forall>d. phase (relay_of d s) \<in> {Returned, Panicked})"

subsection \<open>One relay, run to the end of its input\<close>

partial_function (option) drain ::
  "profile \<Rightarrow> 'a adapter_ops \<Rightarrow> direction \<Rightarrow> bool \<Rightarrow> relay_state \<Rightarrow> 'a \<Rightarrow> (relay_state \<times> 'a) option" where
  "drain p ops dir en st a =
     (if phase st \<noteq> Framing then Some (st, a)
      else case relay_message p ops dir en True st a of (st', a') \<Rightarrow> drain p ops dir en st' a')"

fun relay_chunks ::
  "profile \<Rightarrow> 'a adapter_ops \<Rightarrow> direction \<Rightarrow> bool \<Rightarrow> bytes list \<Rightarrow> relay_state \<Rightarrow> 'a \<Rightarrow> (relay_state \<times> 'a) option" where
  "relay_chunks p ops dir en [] st a = Some (st, a)"
| "relay_chunks p ops dir en (c # cs) st a =
     (case drain p ops dir en (relay_read False (Data c) st) a of
        None \<Rightarrow> None
      | Some (st', a') \<Rightarrow> relay_chunks p ops dir en cs st' a')"

text \<open>The decisions on a list of messages taken one by one, \<open>None\<close> if one of them panics.\<close>

fun decisions ::
  "'a adapter_ops \<Rightarrow> direction \<Rightarrow> bool \<Rightarrow> bytes list \<Rightarrow> 'a \<Rightarrow> ((bytes \<times> intercept_action) list \<times> 'a) option" where
  "decisions ops dir en [] a = Some ([], a)"
| "decisions ops dir en (m # ms) a =
     (case decide ops dir en m a of
        (None, a') \<Rightarrow> None
      | (Some act, a') \<Rightarrow> map_option (\<lambda>(xs, a''). ((m, act) # xs, a'')) (decisions ops dir en ms a'))"

subsection \<open>The proxy\<close>

record 'a fix_proxy =
  listen_addr :: string
  upstream_addr :: string
  px_adapter :: 'a
  px_enabled :: bool
  px_handle :: bool
  px_shutdown :: bool

definition FixProxy_new :: "string \<Rightarrow> string \<Rightarrow> 'a \<Rightarrow> 'a fix_proxy" where
  "FixProxy_new la ua a = \<lparr>listen_addr = la, upstream_addr = ua, px_adapter = a,
     px_enabled = False, px_handle = False, px_shutdown = False\<rparr>"

text \<open>\<^verbatim>\<open>TcpListener::bind\<close> is a parameter: it returns the rendered error, if any, and the world.\<close>

type_synonym 'w bind_fn = "string \<Rightarrow> 'w \<Rightarrow> string option \<times> 'w"

definition FixProxy_start ::
  "'w bind_fn \<Rightarrow> 'a fix_proxy \<Rightarrow> 'w \<Rightarrow> (unit, harness_error) outcome \<times> 'a fix_proxy \<times> 'w" where
  "FixProxy_start bind px w =
     (if px_handle px then (Ok (), px, w)
      else case bind (listen_addr px) w of
        (Some e, w') \<Rightarrow> (Err (ArmFailed ''fix-proxy'' (''binding '' @ listen_addr px @ '': '' @ e)), px, w')
      | (None, w') \<Rightarrow> (Ok (), px\<lparr>px_handle := True\<rparr>, w'))"

definition FixProxy_stop :: "'a fix_proxy \<Rightarrow> 'a fix_proxy" where
  "FixProxy_stop px = px\<lparr>px_shutdown := True, px_handle := False\<rparr>"

text \<open>\<^verbatim>\<open>enabled_flag\<close> hands out the shared flag; storing through it is storing into the proxy's.\<close>

definition FixProxy_enabled_flag_store :: "bool \<Rightarrow> 'a fix_proxy \<Rightarrow> 'a fix_proxy" where
  [simp]: "FixProxy_enabled_flag_store b px = px\<lparr>px_enabled := b\<rparr>"

text \<open>The accept thread. \<^verbatim>\<open>InSession\<close> is the call of \<^verbatim>\<open>run_session\<close>, which goes back to listening
  when the session is over. The call first clones both streams; a clone that fails panics, and the
  panic ends the accept thread.\<close>

datatype accept_state = Listening | InSession | ThreadEnded | ThreadPanicked

datatype connect_result = NotConnected | Connected bool bool

datatype accept_result = Accepted connect_result | AcceptWouldBlock | AcceptFailed

definition run_session_start :: "bool \<Rightarrow> bool \<Rightarrow> accept_state" where
  "run_session_start client_cloned upstream_cloned =
     (if \<not> client_cloned then ThreadPanicked
      else if \<not> upstream_cloned then ThreadPanicked
      else InSession)"

fun accept_turn :: "bool \<Rightarrow> accept_result \<Rightarrow> accept_state \<Rightarrow> accept_state" where
  "accept_turn sd r Listening =
     (if sd then ThreadEnded
      else case r of
        Accepted NotConnected \<Rightarrow> Listening
      | Accepted (Connected client_cloned upstream_cloned) \<Rightarrow> run_session_start client_cloned upstream_cloned
      | AcceptWouldBlock \<Rightarrow> Listening
      | AcceptFailed \<Rightarrow> ThreadEnded)"
| "accept_turn sd r InSession = InSession"
| "accept_turn sd r ThreadEnded = ThreadEnded"
| "accept_turn sd r ThreadPanicked = ThreadPanicked"

section \<open>Invariants of a session\<close>

inductive_cases session_stepE: "session_step p ops s e s'"
inductive_simps session_run_nil: "session_run p ops s [] s'"
inductive_simps session_run_snoc: "session_run p ops s (es @ [e]) s'"

lemma relay_of_set [simp]:
  "relay_of d (set_relay d' st s) = (if d = d' then st else relay_of d s)"
  "adapter (set_relay d st s) = adapter s" "enabled (set_relay d st s) = enabled s"
  "shutdown (set_relay d st s) = shutdown s"
  by (cases d; cases d'; simp)+

lemma relay_of_flags [simp]:
  "relay_of d (s\<lparr>enabled := b\<rparr>) = relay_of d s" "relay_of d (s\<lparr>shutdown := b\<rparr>) = relay_of d s"
  "relay_of d (s\<lparr>adapter := a\<rparr>) = relay_of d s" "relay_of d (session_init en sd a) = relay_init"
  "enabled (session_init en sd a) = en" "shutdown (session_init en sd a) = sd" "adapter (session_init en sd a) = a"
  by (cases d; simp add: session_init_def)+

text \<open>The three outcomes of a turn of the framing loop.\<close>

lemma relay_message_cases:
  assumes "relay_message p ops dir en wr st a = (st', a')"
  obtains (wait) "st' = st\<lparr>phase := Reading\<rparr>" "a' = a"
  | (gone) len ph where "ph \<in> {Returned, Panicked}"
      "st' = st\<lparr>phase := ph, buf := drop len (buf st)\<rparr>" "len = 0 \<or> find_complete_message p (buf st) = Ok (Some len)"
      "a' = a \<or> a' = snd (decide ops dir en (take len (buf st)) a)"
  | (act) len act where "find_complete_message p (buf st) = Ok (Some len)"
      "decide ops dir en (take len (buf st)) a = (Some act, a')"
      "st' = st\<lparr>buf := drop len (buf st), handled := handled st @ [(take len (buf st), act)]\<rparr>"
proof (cases "find_complete_message p (buf st)")
  case (Ok r)
  show thesis
  proof (cases r)
    case None
    with Ok assms wait show thesis by (simp add: relay_message_def)
  next
    case (Some len)
    obtain d a1 where d: "decide ops dir en (take len (buf st)) a = (d, a1)" by fastforce
    then show thesis
      using assms Ok Some act [of len] gone [of Panicked len] gone [of Returned len]
      by (cases d) (auto simp: relay_message_def Let_def split: if_splits)
  qed
next
  case (Err e)
  with assms wait show thesis by (simp add: relay_message_def)
next
  case (Panic m)
  with assms gone [of Panicked 0] show thesis by (cases st) (auto simp: relay_message_def)
qed

definition relay_inv :: "relay_state \<Rightarrow> bool" where
  "relay_inv st \<longleftrightarrow> (\<exists>rest. bytes_in st = concat (map fst (handled st)) @ rest
     \<and> (phase st \<in> {Reading, Framing} \<longrightarrow> rest = buf st))"

lemma relay_inv_init [simp]: "relay_inv relay_init"
  by (simp add: relay_inv_def relay_init_def)

lemma relay_inv_read:
  "relay_inv st \<Longrightarrow> phase st = Reading \<Longrightarrow> relay_inv (relay_read sd r st)"
  by (auto simp: relay_inv_def relay_read_def split: read_result.split)

lemma relay_inv_message:
  assumes "relay_message p ops dir en wr st a = (st', a')" and "relay_inv st" and "phase st = Framing"
  shows "relay_inv st'"
  using assms(1)
proof (cases rule: relay_message_cases)
  case (act len act)
  with assms(2,3) show ?thesis by (simp add: relay_inv_def)
qed (use assms(2,3) in \<open>auto simp: relay_inv_def\<close>)

lemma session_inv:
  assumes "session_run p ops (session_init en sd a) es s"
  shows "relay_inv (relay_of d s)"
  using assms
proof (induction rule: session_run.induct)
  case (snoc es s' e s'')
  from snoc.hyps(2) snoc.IH show ?case
    by (cases rule: session_step.cases) (auto intro: relay_inv_read relay_inv_message)
qed simp

definition all_forwarded :: "relay_state \<Rightarrow> bool" where
  "all_forwarded st \<longleftrightarrow> (\<forall>x \<in> set (handled st). snd x = Forward)"

lemma forwarded_bytes_out: "all_forwarded st \<Longrightarrow> bytes_out st = concat (map fst (handled st))"
proof -
  assume "all_forwarded st"
  then have "map written (handled st) = map fst (handled st)"
    by (auto simp: all_forwarded_def)
  then show ?thesis by (simp only: bytes_out_def)
qed

lemma all_forwarded_read [simp]: "all_forwarded (relay_read sd r st) = all_forwarded st"
  by (simp add: all_forwarded_def relay_read_def split: read_result.split)

lemma all_forwarded_message:
  assumes "relay_message p ops dir en wr st a = (st', a')" and "all_forwarded st"
    and "\<And>m. decide ops dir en m a = (Some Forward, a)"
  shows "all_forwarded st'"
  using assms(1) by (cases rule: relay_message_cases) (use assms(2,3) in \<open>auto simp: all_forwarded_def\<close>)

lemma message_keeps_adapter:
  assumes "relay_message p ops dir en wr st a = (st', a')"
    and "\<And>m. decide ops dir en m a = (Some Forward, a)"
  shows "a' = a"
  using assms(1) by (cases rule: relay_message_cases) (use assms(2) in auto)

lemma decide_disabled [simp]: "decide ops dir False m a = (Some Forward, a)"
  by (simp add: decide_def)

text \<open>What a relay has handled since an earlier state, all of it forwarded.\<close>

definition forwarded_since :: "relay_state \<Rightarrow> relay_state \<Rightarrow> bool" where
  "forwarded_since st st' \<longleftrightarrow> (\<exists>ms. handled st' = handled st @ map (\<lambda>m. (m, Forward)) ms)"

lemma forwarded_since_refl [simp]: "forwarded_since st st"
  by (auto simp: forwarded_since_def intro: exI [where x = "[]"])

lemma forwarded_since_read [simp]: "forwarded_since st0 (relay_read sd r st) = forwarded_since st0 st"
  by (simp add: forwarded_since_def relay_read_def split: read_result.split)

lemma forwarded_since_message:
  assumes "relay_message p ops dir False wr st a = (st', a')" and "forwarded_since st0 st"
  shows "forwarded_since st0 st'"
  using assms(1)
proof (cases rule: relay_message_cases)
  case (act len act)
  obtain ms where "handled st = handled st0 @ map (\<lambda>m. (m, Forward)) ms"
    using assms(2) by (auto simp: forwarded_since_def)
  with act have "handled st' = handled st0 @ map (\<lambda>m. (m, Forward)) (ms @ [take len (buf st)])" by simp
  then show ?thesis unfolding forwarded_since_def by blast
qed (use assms(2) in \<open>auto simp: forwarded_since_def\<close>)

lemma session_disabled:
  assumes "session_run p ops s0 es s" and "\<not> enabled s0" and "SetEnabled True \<notin> set es"
  shows "\<not> enabled s \<and> adapter s = adapter s0 \<and> forwarded_since (relay_of d s0) (relay_of d s)"
  using assms(1,3)
proof (induction rule: session_run.induct)
  case nil
  then show ?case using assms(2) by simp
next
  case (snoc es s' e s'')
  then have IH: "\<not> enabled s'" "adapter s' = adapter s0" "forwarded_since (relay_of d s0) (relay_of d s')" by auto
  from snoc.hyps(2) snoc.prems IH show ?case
    by (cases rule: session_step.cases)
      (auto dest: message_keeps_adapter intro: forwarded_since_message)
qed

lemma session_run_append:
  assumes "session_run p ops s1 es2 s2" and "session_run p ops s0 es1 s1"
  shows "session_run p ops s0 (es1 @ es2) s2"
  using assms
proof (induction rule: session_run.induct)
  case (snoc es s' e s'')
  from session_run.snoc [OF snoc.IH [OF snoc.prems] snoc.hyps(2)] show ?case by simp
qed simp

text \<open>A session that is not over can go on: a relay that waits for its socket takes whatever the read returns,
  and one that frames takes its next turn.\<close>

lemma session_progress:
  assumes "\<not> session_over s"
  shows "\<exists>d e s'. e \<in> {Read d WouldBlock, Message d True} \<and> session_step p ops s e s'"
proof -
  obtain d where "phase (relay_of d s) = Reading \<or> phase (relay_of d s) = Framing"
    using assms by (auto simp: session_over_def) (metis relay_phase.exhaust)
  then show ?thesis
  proof
    assume "phase (relay_of d s) = Reading"
    then have "session_step p ops s (Read d WouldBlock) (set_relay d (relay_read (shutdown s) WouldBlock (relay_of d s)) s)"
      by (rule session_step.read) simp
    then show ?thesis by blast
  next
    assume ph: "phase (relay_of d s) = Framing"
    obtain st a where "relay_message p ops d (enabled s) True (relay_of d s) (adapter s) = (st, a)" by fastforce
    from session_step.message [OF ph this] show ?thesis by blast
  qed
qed

text \<open>Once the shutdown flag is up, a relay takes nothing more off its socket and looks at it at most once.\<close>

lemma relay_message_bytes_in:
  assumes "relay_message p ops dir en wr st a = (st', a')"
  shows "bytes_in st' = bytes_in st"
  using assms by (cases rule: relay_message_cases) simp_all

lemma session_shutdown:
  assumes "session_run p ops s0 es s" and "shutdown s0"
  shows "shutdown s \<and> bytes_in (relay_of d s) = bytes_in (relay_of d s0)
     \<and> length (filter (\<lambda>e. \<exists>r. e = Read d r) es) \<le> (if phase (relay_of d s) = Returned then 1 else 0)"
  using assms
proof (induction rule: session_run.induct)
  case (snoc es s' e s'')
  then have IH: "shutdown s'" "bytes_in (relay_of d s') = bytes_in (relay_of d s0)"
    "length (filter (\<lambda>e. \<exists>r. e = Read d r) es) \<le> (if phase (relay_of d s') = Returned then 1 else 0)" by auto
  from snoc.hyps(2) IH show ?case
    by (cases rule: session_step.cases)
      (auto simp: relay_read_def dest: relay_message_bytes_in split: if_splits)
qed simp

text \<open>The direction an adapter does not work on, whatever the flags do; and what reaches a socket.\<close>

lemma framed_take:
  assumes "find_complete_message Debug b = Ok (Some n)"
  shows "find_complete_message Debug (take n b @ xs) = Ok (Some n)"
proof -
  obtain bs ds rest len where b: "b = header_bytes bs ds @ rest" "SOH \<notin> set bs" "SOH \<notin> set ds"
    and len: "parse_unsigned 64 ds = Some len" and n: "total_len Debug (length bs + length ds + 6) len = Ok n"
    and le: "n \<le> length b"
    using assms by (auto simp: framed_iff)
  have "length (header_bytes bs ds) \<le> n" using n by (auto simp: total_len_Debug split: if_splits)
  then have "take n b @ xs = header_bytes bs ds @ take (n - length (header_bytes bs ds)) rest @ xs"
    by (simp add: b(1))
  moreover have "n \<le> length (take n b @ xs)" using le by simp
  ultimately show ?thesis using b(2,3) len n unfolding framed_iff by blast
qed

definition frames_alone :: "bytes \<Rightarrow> bool" where
  "frames_alone m \<longleftrightarrow> length m < 2 ^ 64 \<longrightarrow> (\<forall>xs. find_complete_message Debug (m @ xs) = Ok (Some (length m)))"

definition writes_framed :: "relay_state \<Rightarrow> bool" where
  "writes_framed st \<longleftrightarrow> (\<forall>x \<in> set (handled st). snd x \<noteq> Drop \<longrightarrow> frames_alone (written x))"

lemma writes_framed_read [simp]: "writes_framed (relay_read sd r st) = writes_framed st"
  by (simp add: writes_framed_def relay_read_def split: read_result.split)

lemma is_frame_alone: "is_frame m \<Longrightarrow> frames_alone m"
  by (auto simp: is_frame_def frames_alone_def find_frame)

lemma framed_alone:
  assumes "find_complete_message Debug b = Ok (Some n)"
  shows "frames_alone (take n b)"
proof -
  have "n \<le> length b" using assms by (auto simp: framed_iff)
  then show ?thesis using framed_take [OF assms] by (simp add: frames_alone_def)
qed

context protocol_adapter
begin

lemma decide_other_side: "d \<noteq> side a \<Longrightarrow> decide ops d en m a = (Some Forward, a)"
  by (simp add: decide_def other_side)

lemma decide_keeps_side: "decide ops d en m a = (r, a') \<Longrightarrow> side a' = side a"
  by (auto simp: decide_def dest: keeps split: if_splits prod.splits)

lemma message_keeps_side:
  assumes "relay_message p ops d en wr st a = (st', a')"
  shows "side a' = side a"
  using assms
proof (cases rule: relay_message_cases)
  case (gone len ph)
  then show ?thesis
    using decide_keeps_side [of d en "take len (buf st)" a] by (metis prod.collapse)
qed (auto dest: decide_keeps_side)

lemma session_other_side:
  assumes "session_run p ops (session_init en sd a) es s" and "d \<noteq> side a"
  shows "side (adapter s) = side a \<and> all_forwarded (relay_of d s)"
  using assms
proof (induction rule: session_run.induct)
  case nil
  then show ?case by (simp add: all_forwarded_def relay_init_def)
next
  case (snoc es s' e s'')
  then have IH: "side (adapter s') = side a" "all_forwarded (relay_of d s')" by auto
  from snoc.hyps(2) show ?case
  proof (cases rule: session_step.cases)
    case (message d' wr st a')
    have "all_forwarded st" if "d' = d"
      using all_forwarded_message [OF message(4)] decide_other_side IH snoc.prems that by metis
    with message message_keeps_side [OF message(4)] IH show ?thesis by simp
  qed (use IH in auto)
qed

lemma decide_frames:
  assumes "decide ops d en m a = (Some act, a')" and "frames_alone m" and "act \<noteq> Drop"
  shows "frames_alone (written (m, act))"
proof (cases act)
  case (Mutate bs)
  with assms(1) have "op_intercept ops a \<lparr>msg_bytes = m, msg_direction = d\<rparr> = (Ok (Mutate bs), a')"
    by (auto simp: decide_def split: if_splits prod.splits outcome.splits)
  then show ?thesis using mutate_frames is_frame_alone Mutate by auto
qed (use assms(2,3) in auto)

lemma session_writes_framed:
  assumes "session_run Debug ops (session_init en sd a) es s"
  shows "writes_framed (relay_of d s)"
  using assms
proof (induction rule: session_run.induct)
  case nil
  then show ?case by (simp add: writes_framed_def relay_init_def)
next
  case (snoc es s' e s'')
  from snoc.hyps(2) show ?case
  proof (cases rule: session_step.cases)
    case (message d' wr st a')
    from message(4) have "writes_framed st" if "writes_framed (relay_of d' s')"
      by (cases rule: relay_message_cases)
        (use that in \<open>auto simp: writes_framed_def intro: decide_frames framed_alone\<close>)
    with message snoc.IH show ?thesis by auto
  qed (use snoc.IH in auto)
qed

end

section \<open>A relay on its own\<close>

definition whole :: "bytes \<Rightarrow> bool" where
  "whole m \<longleftrightarrow> is_frame m \<and> length m < 2 ^ 64"

lemma whole_nonempty: "whole m \<Longrightarrow> m \<noteq> []"
  by (auto simp: whole_def is_frame_def frame_def header_bytes_def tag8_9_bytes)

lemma stream_head:
  assumes "b @ rest = m @ xs" and "length m \<le> length b"
  shows "take (length m) b = m" and "drop (length m) b @ rest = xs"
  using arg_cong [OF assms(1), of "take (length m)"] arg_cong [OF assms(1), of "drop (length m)"] assms(2)
  by simp_all

text \<open>A buffer that is the start of a stream of messages: the first one is there or still coming.\<close>

lemma find_in_stream:
  assumes "whole m" and "b @ rest = m @ xs"
  shows "find_complete_message p b = (if length m \<le> length b then Ok (Some (length m)) else Ok None)"
proof -
  obtain bs body t where f: "m = frame bs body t" "SOH \<notin> set bs" "length t = 7" "length (frame bs body t) < 2 ^ 64"
    using assms(1) by (auto simp: whole_def is_frame_def)
  show ?thesis
  proof (cases "length m \<le> length b")
    case True
    have "b = m @ drop (length m) b"
      using stream_head(1) [OF assms(2) True] by (metis append_take_drop_id)
    then show ?thesis using find_frame [OF f(2,3,4)] True by (metis f(1))
  next
    case False
    then have "b = take (length b) m"
      using assms(2) by (metis append_eq_append_conv_if nat_le_linear append_eq_conv_conj)
    then show ?thesis using find_frame_prefix [OF f(2,3,4), of "length b" p] False by (simp add: f(1))
  qed
qed

definition waiting :: "bytes \<Rightarrow> bytes list \<Rightarrow> bool" where
  "waiting b ms \<longleftrightarrow> (case ms of [] \<Rightarrow> b = [] | m # _ \<Rightarrow> length b < length m)"

lemma find_empty [simp]: "find_complete_message p [] = Ok None"
  by (simp add: find_complete_message_def)

lemma drain_wait:
  assumes "find_complete_message p (buf st) = Ok None" and "phase st = Framing"
  shows "drain p ops dir en st a = Some (st\<lparr>phase := Reading\<rparr>, a)"
proof -
  have "relay_message p ops dir en True st a = (st\<lparr>phase := Reading\<rparr>, a)"
    using assms(1) by (simp add: relay_message_def)
  then show ?thesis
    using assms(2) by (subst drain.simps) (simp add: drain.simps [of p ops dir en "st\<lparr>phase := Reading\<rparr>"])
qed

text \<open>Draining takes the complete messages out, in order, and stops at the first incomplete one.\<close>

lemma drain_stream:
  assumes "phase st = Framing" and "buf st @ rest = concat ms" and "\<forall>m \<in> set ms. whole m"
    and "decisions ops dir en ms a = Some (xs, af)"
  shows "\<exists>b' ys zs ms' a'. drain p ops dir en st a
       = Some (st\<lparr>phase := Reading, buf := b', handled := handled st @ ys\<rparr>, a')
     \<and> b' @ rest = concat ms' \<and> set ms' \<subseteq> set ms \<and> waiting b' ms'
     \<and> decisions ops dir en ms' a' = Some (zs, af) \<and> xs = ys @ zs"
  using assms
proof (induction ms arbitrary: st a xs)
  case Nil
  then have "drain p ops dir en st a = Some (st\<lparr>phase := Reading\<rparr>, a)"
    by (intro drain_wait) simp_all
  with Nil show ?case
    by (intro exI [where x = "[]"] exI [where x = a]) (cases st, simp add: waiting_def)
next
  case (Cons m ms)
  have w: "whole m" using Cons.prems(3) by simp
  note find = find_in_stream [OF w, of "buf st" rest "concat ms" p]
  show ?case
  proof (cases "length m \<le> length (buf st)")
    case False
    then have "drain p ops dir en st a = Some (st\<lparr>phase := Reading\<rparr>, a)"
      using find Cons.prems(1,2) by (intro drain_wait) simp_all
    with Cons.prems False show ?thesis
      by (intro exI [where x = "buf st"] exI [where x = "[]"] exI [where x = xs] exI [where x = "m # ms"] exI [where x = a])
        (cases st, simp add: waiting_def)
  next
    case True
    obtain act a1 zs where d: "decide ops dir en m a = (Some act, a1)"
      and rest: "decisions ops dir en ms a1 = Some (zs, af)" and xs: "xs = (m, act) # zs"
      using Cons.prems(4) by (auto split: prod.splits option.splits)
    let ?st = "st\<lparr>buf := drop (length m) (buf st), handled := handled st @ [(m, act)]\<rparr>"
    have m: "take (length m) (buf st) = m" and b: "drop (length m) (buf st) @ rest = concat ms"
      using stream_head [OF _ True, of rest "concat ms"] Cons.prems(2) by simp_all
    then have "relay_message p ops dir en True st a = (?st, a1)"
      using find Cons.prems(2) True d by (simp add: relay_message_def Let_def)
    then have "drain p ops dir en st a = drain p ops dir en ?st a1"
      using Cons.prems(1) by (subst drain.simps) simp
    with Cons.IH [of ?st a1 zs] Cons.prems(1,3) b rest xs show ?thesis by fastforce
  qed
qed

lemma relay_chunks_stream:
  assumes "phase st = Reading" and "buf st @ concat cs = concat ms" and "\<forall>m \<in> set ms. whole m"
    and "decisions ops dir en ms a = Some (xs, af)" and "waiting (buf st) ms"
  shows "relay_chunks p ops dir en cs st a
    = Some (st\<lparr>phase := Reading, buf := [], bytes_in := bytes_in st @ concat cs, handled := handled st @ xs\<rparr>, af)"
  using assms
proof (induction cs arbitrary: st ms a xs)
  case Nil
  have "ms = []"
  proof (cases ms)
    case (Cons m ms')
    with Nil(2,5) show ?thesis by (simp add: waiting_def)
  qed
  with Nil show ?case by (cases st) simp
next
  case (Cons c cs)
  let ?st = "relay_read False (Data c) st"
  have st: "phase ?st = Framing" "buf ?st @ concat cs = concat ms" "handled ?st = handled st"
      "bytes_in ?st = bytes_in st @ c"
    using Cons.prems(2) by (simp_all add: relay_read_def)
  obtain b' ys zs ms' a' where dr: "drain p ops dir en ?st a
       = Some (?st\<lparr>phase := Reading, buf := b', handled := handled ?st @ ys\<rparr>, a')"
    and ms': "b' @ concat cs = concat ms'" "set ms' \<subseteq> set ms" "waiting b' ms'"
      "decisions ops dir en ms' a' = Some (zs, af)" "xs = ys @ zs"
    using drain_stream [OF st(1,2) Cons.prems(3,4)] by blast
  show ?case
    using dr Cons.IH [of "?st\<lparr>phase := Reading, buf := b', handled := handled ?st @ ys\<rparr>" ms' a' zs]
      ms' Cons.prems(3) by (simp add: relay_read_def subset_iff)
qed

text \<open>Without overflow checks a length can come out as 0, and the framing loop never ends.\<close>

lemma find_zero:
  assumes "SOH \<notin> set b" and "length (header_bytes b (dec_bytes len)) + len + 7 = 2 ^ 64"
  shows "find_complete_message Release (header_bytes b (dec_bytes len) @ xs) = Ok (Some 0)"
proof -
  have "parse_unsigned 64 (dec_bytes len) = Some len"
    using assms(2) by (intro parse_unsigned_dec) simp
  moreover have "total_len Release (length b + length (dec_bytes len) + 6) len = Ok 0"
    by (cases rule: total_len_cases [of "length b + length (dec_bytes len) + 6" len Release])
      (use assms(2) in simp_all)
  ultimately show ?thesis
    using find_header [OF assms(1) SOH_not_in_dec(1) [of len], of Release xs] by simp
qed

lemma drain_zero:
  assumes "find_complete_message p B = Ok (Some 0)" and "phase st = Framing" and "buf st = B"
  shows "drain p ops dir False st a = None"
proof (rule ccontr)
  assume "drain p ops dir False st a \<noteq> None"
  then obtain res where "drain p ops dir False st a = Some res" by blast
  note runs = this
  let ?Q = "\<lambda>q (o1 :: 'a adapter_ops) (d :: direction) en st (a :: 'a) (res :: relay_state \<times> 'a).
    q = p \<longrightarrow> \<not> en \<longrightarrow> phase st = Framing \<longrightarrow> buf st = B \<longrightarrow> False"
  have "?Q p ops dir False st a res"
  proof (rule drain.raw_induct [where P = ?Q, OF _ runs], intro impI, goal_cases)
    case (1 dr q o1 d en st a res)
    let ?st = "st\<lparr>buf := B, handled := handled st @ [([], Forward)]\<rparr>"
    have "relay_message q o1 d en True st a = (?st, a)"
      using 1(3-6) assms(1) by (simp add: relay_message_def Let_def decide_def)
    with 1(2,5) have "dr q o1 d en ?st a = Some res" by simp
    from 1(1) [OF this] 1(3-5) show False by simp
  qed
  with assms show False by simp
qed

section \<open>Properties\<close>

text \<open>A message on its way from the client, as the start of a session, for the witnesses.\<close>

abbreviation demo_msg :: bytes where
  "demo_msg \<equiv> frame [] [] (replicate 7 SOH)"

lemma demo_len: "length demo_msg = 14"
  by (simp add: frame_def dec_bytes_def dec_digits.simps)

lemma demo_whole: "whole demo_msg"
  unfolding whole_def is_frame_def demo_len by (intro conjI exI) auto

lemma demo_run:
  "session_run Debug (fix_ops Debug) (session_init en False FixSilentReject)
     [Read Outbound (Data demo_msg), Message Outbound True]
     (set_relay Outbound \<lparr>phase = Framing, buf = [], bytes_in = demo_msg, handled = [(demo_msg, Forward)]\<rparr>
       (session_init en False FixSilentReject))"
  (is "session_run _ _ ?s0 [?e1, ?e2] ?s2")
proof -
  let ?s1 = "set_relay Outbound (relay_read False (Data demo_msg) relay_init) ?s0"
  have "session_step Debug (fix_ops Debug) ?s0 ?e1 ?s1"
    using session_step.read [of Outbound ?s0 "Data demo_msg"] demo_len demo_whole
    by (simp add: relay_init_def whole_nonempty)
  then have one: "session_run Debug (fix_ops Debug) ?s0 ([] @ [?e1]) ?s1"
    by (rule session_run.snoc [OF session_run.nil])
  have "find_complete_message Debug demo_msg = Ok (Some (length demo_msg))"
    using find_in_stream [OF demo_whole, of demo_msg "[]" "[]"] by simp
  moreover have "decide (fix_ops Debug) Outbound en demo_msg FixSilentReject = (Some Forward, FixSilentReject)"
    by (rule fixad.decide_other_side) simp
  ultimately have "relay_message Debug (fix_ops Debug) Outbound (enabled ?s1) True (relay_of Outbound ?s1) (adapter ?s1)
      = (\<lparr>phase = Framing, buf = [], bytes_in = demo_msg, handled = [(demo_msg, Forward)]\<rparr>, FixSilentReject)"
    by (simp add: relay_message_def relay_read_def relay_init_def Let_def)
  then have "session_step Debug (fix_ops Debug) ?s1 ?e2 ?s2"
    using session_step.message [of Outbound ?s1 Debug "fix_ops Debug" True]
    by (simp add: relay_read_def relay_init_def session_init_def)
  from session_run.snoc [OF one this] show ?thesis by simp
qed



text \<open>
  C30: a proxy whose fault is off is transparent. From any moment of a session at which the flag is off,
  and for as long as nobody sets it, every message a relay takes off its stream is written unchanged
  and in order, and the adapter is not consulted; what the relay took before that moment does not
  matter, so switching a fault off restores the stream.
\<close>

theorem session_transparent_when_disabled:
  assumes "session_run p ops (session_init en sd a) es1 s1" and "\<not> enabled s1"
    and "session_run p ops s1 es2 s2" and "SetEnabled True \<notin> set es2"
  shows "adapter s2 = adapter s1 \<and>
    (\<exists>taken rest. bytes_out (relay_of d s2) = bytes_out (relay_of d s1) @ concat taken
       \<and> bytes_in (relay_of d s2) = concat (map fst (handled (relay_of d s1))) @ concat taken @ rest
       \<and> (phase (relay_of d s2) \<in> {Reading, Framing} \<longrightarrow> rest = buf (relay_of d s2)))"
proof -
  note off = session_disabled [OF assms(3,2,4), of d]
  then obtain ms where ms: "handled (relay_of d s2) = handled (relay_of d s1) @ map (\<lambda>m. (m, Forward)) ms"
    by (auto simp: forwarded_since_def)
  from session_inv [OF session_run_append [OF assms(3,1)], of d] obtain rest where
    "bytes_in (relay_of d s2) = concat (map fst (handled (relay_of d s2))) @ rest"
    "phase (relay_of d s2) \<in> {Reading, Framing} \<longrightarrow> rest = buf (relay_of d s2)"
    by (auto simp: relay_inv_def)
  with off ms show ?thesis by (intro conjI exI [of _ ms] exI [of _ rest]) (simp_all add: bytes_out_def comp_def)
qed

theorem session_transparent_when_disabled_witness:
  "let s1 = session_init False False FixSilentReject;
       s2 = set_relay Outbound \<lparr>phase = Framing, buf = [], bytes_in = demo_msg, handled = [(demo_msg, Forward)]\<rparr> s1
   in adapter s2 = adapter s1 \<and> (\<exists>taken. bytes_out (relay_of Outbound s2) = bytes_out (relay_of Outbound s1) @ concat taken)"
proof -
  have "session_run Debug (fix_ops Debug) (session_init True False FixSilentReject) ([] @ [SetEnabled False])
      ((session_init True False FixSilentReject)\<lparr>enabled := False\<rparr>)"
    by (rule session_run.snoc [OF session_run.nil session_step.set_enabled])
  then have "session_run Debug (fix_ops Debug) (session_init True False FixSilentReject) [SetEnabled False]
      (session_init False False FixSilentReject)"
    by (simp add: session_init_def)
  from session_transparent_when_disabled [OF this _ demo_run [of False], of Outbound] show ?thesis
    unfolding Let_def by fastforce
qed

text \<open>
  A FIX fault works on one direction only: whatever the flags do, the stream of the other
  direction passes byte for byte.
\<close>

lemma session_other_direction_untouched:
  assumes "session_run p (fix_ops p) (session_init en sd a) es s" and "d \<noteq> fault_side a"
  shows "\<exists>rest. bytes_in (relay_of d s) = bytes_out (relay_of d s) @ rest
     \<and> (phase (relay_of d s) \<in> {Reading, Framing} \<longrightarrow> rest = buf (relay_of d s))"
  using session_inv [OF assms(1), of d] fixad.session_other_side [OF assms]
  by (simp add: relay_inv_def forwarded_bytes_out)



text \<open>
  C12: how the network cuts a stream does not matter: fed a stream of whole messages in any chunks, a
  relay ends with an empty buffer, having handled exactly these messages in order, each as the adapter
  decides when asked about them one after the other.
\<close>

theorem relay_stream_exact:
  assumes "\<forall>m \<in> set ms. is_frame m \<and> length m < 2 ^ 64" and "concat cs = concat ms"
    and "decisions ops dir en ms a = Some (xs, a')"
  shows "relay_chunks p ops dir en cs relay_init a
    = Some (\<lparr>phase = Reading, buf = [], bytes_in = concat ms, handled = xs\<rparr>, a')"
proof -
  have w: "\<forall>m \<in> set ms. whole m" using assms(1) by (simp add: whole_def)
  then have "waiting [] ms" by (cases ms) (auto simp: waiting_def dest: whole_nonempty)
  with relay_chunks_stream [of relay_init cs ms ops dir en a xs a' p] w assms(2,3) show ?thesis
    by (simp add: relay_init_def)
qed

theorem relay_stream_exact_witness:
  "relay_chunks Release (fix_ops Release) Outbound True [take 5 demo_msg, drop 5 demo_msg @ take 1 demo_msg, drop 1 demo_msg]
     relay_init (FixRateLimitThrottle (FixRateLimitThrottle_new 1))
   = Some (\<lparr>phase = Reading, buf = [], bytes_in = concat [demo_msg, demo_msg],
            handled = [(demo_msg, Forward), (demo_msg, Drop)]\<rparr>,
           FixRateLimitThrottle \<lparr>threshold = 1, throttle_count = 2\<rparr>)"
proof (rule relay_stream_exact)
  show "\<forall>m \<in> set [demo_msg, demo_msg]. is_frame m \<and> length m < 2 ^ 64"
    using demo_whole by (simp add: whole_def)
  show "concat [take 5 demo_msg, drop 5 demo_msg @ take 1 demo_msg, drop 1 demo_msg] = concat [demo_msg, demo_msg]"
    by simp
  show "decisions (fix_ops Release) Outbound True [demo_msg, demo_msg] (FixRateLimitThrottle (FixRateLimitThrottle_new 1))
    = Some ([(demo_msg, Forward), (demo_msg, Drop)], FixRateLimitThrottle \<lparr>threshold = 1, throttle_count = 2\<rparr>)"
    by (simp add: decide_def fix_ops_def FixRateLimitThrottle_intercept_def FixRateLimitThrottle_new_def Let_def)
qed

text \<open>
  C36: in a release build a peer can hang a relay: a BodyLength chosen so that header, body and trailer
  add up to \<open>2 ^ 64\<close> makes \<^verbatim>\<open>find_complete_message\<close> return 0, and the framing loop forwards empty
  messages forever.
\<close>

theorem relay_hangs_on_wrapped_length:
  assumes "SOH \<notin> set b" and "length (header_bytes b (dec_bytes len)) + len + 7 = 2 ^ 64"
  shows "relay_chunks Release ops dir False [header_bytes b (dec_bytes len) @ xs] relay_init a = None"
  using drain_zero [OF find_zero [OF assms, of xs],
      of "relay_read False (Data (header_bytes b (dec_bytes len) @ xs)) relay_init" ops dir a]
  by (simp add: relay_read_def relay_init_def)

theorem relay_hangs_on_wrapped_length_witness:
  "relay_chunks Release (fix_ops Release) Outbound False
     [header_bytes [] (dec_bytes 18446744073709551583)] relay_init FixSilentReject = None"
  using relay_hangs_on_wrapped_length [of "[]" 18446744073709551583 "fix_ops Release" Outbound "[]" FixSilentReject]
  by (simp add: dec_bytes_def dec_digits.simps)

text \<open>
  A proxy that was stopped cannot be started again: \<^verbatim>\<open>stop\<close> leaves the shutdown flag set, and
  \<^verbatim>\<open>start\<close>, though it succeeds, spawns an accept thread that ends at its first turn, whatever
  connections are waiting.
\<close>

lemma restart_after_stop_is_dead:
  assumes "bind (listen_addr px) w = (None, w')"
  shows "\<exists>px'. FixProxy_start bind (FixProxy_stop px) w = (Ok (), px', w')
     \<and> px_handle px' \<and> accept_turn (px_shutdown px') r Listening = ThreadEnded"
  using assms by (simp add: FixProxy_start_def FixProxy_stop_def)

end
