(* ===== verification/Fix_Injector.thy ===== *)
theory Fix_Injector
  imports Fix_Proxy
begin

text \<open>
  \<^verbatim>\<open>adapters/src/fix/injector.rs\<close>: a proxy as a fault injector. Arming starts the proxy once and
  sets the shared flag, disarming clears it; the proxy keeps running in between. The operations
  satisfy the contract of \<^verbatim>\<open>FaultInjector\<close> for every adapter and every way binding the listener may
  go.
\<close>

section \<open>Definitions\<close>

record 'a fix_fault_injector =
  fx_id :: string
  fx_proxy :: "'a fix_proxy"
  fx_armed :: bool

definition FixFaultInjector_new :: "string \<Rightarrow> string \<Rightarrow> string \<Rightarrow> 'a \<Rightarrow> 'a fix_fault_injector" where
  "FixFaultInjector_new i la ua a = \<lparr>fx_id = i, fx_proxy = FixProxy_new la ua a, fx_armed = False\<rparr>"

definition FixFaultInjector_arm ::
  "'w bind_fn \<Rightarrow> fault_context \<Rightarrow> ('a fix_fault_injector, 'w) fault_call" where
  "FixFaultInjector_arm bind ctx i w =
     (case FixProxy_start bind (fx_proxy i) w of
        (Ok u, px, w') \<Rightarrow> (Ok (), i\<lparr>fx_proxy := FixProxy_enabled_flag_store True px, fx_armed := True\<rparr>, w')
      | (Err e, px, w') \<Rightarrow> (Err e, i\<lparr>fx_proxy := px\<rparr>, w')
      | (Panic m, px, w') \<Rightarrow> (Panic m, i\<lparr>fx_proxy := px\<rparr>, w'))"

definition FixFaultInjector_disarm :: "('a fix_fault_injector, 'w) fault_call" where
  "FixFaultInjector_disarm i w =
     (Ok (), i\<lparr>fx_proxy := FixProxy_enabled_flag_store False (fx_proxy i), fx_armed := False\<rparr>, w)"

definition fix_injector_ops :: "'w bind_fn \<Rightarrow> ('a fix_fault_injector, 'w) injector_ops" where
  "fix_injector_ops bind = \<lparr>op_id = fx_id, op_arm = FixFaultInjector_arm bind,
     op_disarm = FixFaultInjector_disarm, op_is_armed = fx_armed\<rparr>"

text \<open>The flag the relays read follows the injector's own.\<close>

definition fix_injector_inv :: "'a fix_fault_injector \<Rightarrow> bool" where
  "fix_injector_inv i \<longleftrightarrow> px_enabled (fx_proxy i) = fx_armed i \<and> (fx_armed i \<longrightarrow> px_handle (fx_proxy i))"

section \<open>The contract\<close>

lemma FixProxy_start_cases:
  assumes "FixProxy_start bind px w = (r, px', w')"
  obtains "px_handle px" "r = Ok ()" "px' = px" "w' = w"
  | "\<not> px_handle px" "r = Ok ()" "px' = px\<lparr>px_handle := True\<rparr>" "bind (listen_addr px) w = (None, w')"
  | e where "\<not> px_handle px" "bind (listen_addr px) w = (Some e, w')" "px' = px"
      "r = Err (ArmFailed ''fix-proxy'' (''binding '' @ listen_addr px @ '': '' @ e))"
  using assms by (auto simp: FixProxy_start_def split: if_splits prod.splits option.splits)

lemma FixFaultInjector_arm_cases:
  assumes "FixFaultInjector_arm bind ctx i w = (r, i', w')"
  obtains px where "r = Ok ()" "i' = i\<lparr>fx_proxy := px\<lparr>px_enabled := True\<rparr>, fx_armed := True\<rparr>" "px_handle px"
      "px = fx_proxy i \<or> px = (fx_proxy i)\<lparr>px_handle := True\<rparr>"
  | e where "r = Err e" "i' = i"
proof -
  obtain r1 px w1 where st: "FixProxy_start bind (fx_proxy i) w = (r1, px, w1)" by (metis prod_cases3)
  then show thesis
    by (cases rule: FixProxy_start_cases) (use assms st that in \<open>auto simp: FixFaultInjector_arm_def\<close>)
qed

interpretation fix_injector: idempotent_injector "fix_injector_ops bind" for bind
proof
  fix c i w i' w' u
  assume "op_arm (fix_injector_ops bind) c i w = (Ok u, i', w')"
  then have arm: "FixFaultInjector_arm bind c i w = (Ok u, i', w')" by (simp add: fix_injector_ops_def)
  then show "op_is_armed (fix_injector_ops bind) i'"
    by (cases rule: FixFaultInjector_arm_cases) (auto simp: fix_injector_ops_def)
  fix c' w''
  from arm show "fst (snd (op_arm (fix_injector_ops bind) c' i' w'')) = i'"
    by (cases rule: FixFaultInjector_arm_cases)
      (auto simp: fix_injector_ops_def FixFaultInjector_arm_def FixProxy_start_def)
next
  fix c i w i' w' e
  assume "op_arm (fix_injector_ops bind) c i w = (Err e, i', w')"
  then have "FixFaultInjector_arm bind c i w = (Err e, i', w')" by (simp add: fix_injector_ops_def)
  then show "op_is_armed (fix_injector_ops bind) i' = op_is_armed (fix_injector_ops bind) i"
    by (cases rule: FixFaultInjector_arm_cases) auto
next
  fix c i w i' w' m
  show "op_arm (fix_injector_ops bind) c i w \<noteq> (Panic m, i', w')"
    by (auto simp: fix_injector_ops_def elim: FixFaultInjector_arm_cases)
next
  fix c i w i' w' r
  assume "op_arm (fix_injector_ops bind) c i w = (r, i', w')"
  then have "FixFaultInjector_arm bind c i w = (r, i', w')" by (simp add: fix_injector_ops_def)
  then show "op_id (fix_injector_ops bind) i' = op_id (fix_injector_ops bind) i"
    by (cases rule: FixFaultInjector_arm_cases) (auto simp: fix_injector_ops_def)
qed (auto simp: fix_injector_ops_def FixFaultInjector_disarm_def)

lemma fix_injector_inv_new [simp]: "fix_injector_inv (FixFaultInjector_new i la ua a)"
  by (simp add: fix_injector_inv_def FixFaultInjector_new_def FixProxy_new_def)

lemma fix_injector_inv_arm:
  "fix_injector_inv i \<Longrightarrow> FixFaultInjector_arm bind ctx i w = (r, i', w') \<Longrightarrow> fix_injector_inv i'"
  by (erule FixFaultInjector_arm_cases) (auto simp: fix_injector_inv_def)

lemma fix_injector_inv_disarm:
  "FixFaultInjector_disarm i w = (r, i', w') \<Longrightarrow> fix_injector_inv i'"
  by (auto simp: fix_injector_inv_def FixFaultInjector_disarm_def)

section \<open>Sequences of calls\<close>

text \<open>
  Whatever sequence of arms and disarms an injector goes through, and however binding the listener
  goes, the flag its relays read is its own armed state, an armed injector has a running proxy, and the
  adapter is the one it was built with: no call resets an adapter's state, so a throttle counts on
  across disarming and arming again.
\<close>

lemma fix_flag_follows_armed:
  "let j = after_calls (fix_injector_ops bind) ctx cs (FixFaultInjector_new i la ua a)
   in px_enabled (fx_proxy j) = fx_armed j \<and> (fx_armed j \<longrightarrow> px_handle (fx_proxy j))
      \<and> px_adapter (fx_proxy j) = a \<and> \<not> px_shutdown (fx_proxy j)"
proof -
  let ?P = "\<lambda>j. fix_injector_inv j \<and> px_adapter (fx_proxy j) = a \<and> \<not> px_shutdown (fx_proxy j)"
  have "?P (after_calls (fix_injector_ops bind) ctx cs (FixFaultInjector_new i la ua a))"
  proof (rule after_calls_inv [where P = ?P])
    fix j w r j' w'
    assume j: "?P j" and arm: "op_arm (fix_injector_ops bind) ctx j w = (r, j', w')"
    have "FixFaultInjector_arm bind ctx j w = (r, j', w')" using arm by (simp add: fix_injector_ops_def)
    then show "?P j'"
      using j by (cases rule: FixFaultInjector_arm_cases) (auto simp: fix_injector_inv_def)
  next
    fix j w r j' w'
    assume "?P j" and "op_disarm (fix_injector_ops bind) j w = (r, j', w')"
    then show "?P j'" by (auto simp: fix_injector_ops_def FixFaultInjector_disarm_def fix_injector_inv_def)
  qed (simp add: FixFaultInjector_new_def FixProxy_new_def fix_injector_inv_def)
  then show ?thesis by (auto simp: fix_injector_inv_def)
qed

end
