(* ===== verification/Fix_System.thy ===== *)
theory Fix_System
  imports Fix_Injector
begin

text \<open>
  The FIX fault as a whole: the injector of \<^verbatim>\<open>adapters/src/fix/injector.rs\<close>, the accept thread and the
  relays of \<^verbatim>\<open>adapters/src/fix/proxy.rs\<close> running side by side. The adapter and the two flags live in
  the proxy, which every thread shares; the accept thread and the two relays of its session keep
  their own state. A step is one call on the injector, one turn of the accept loop, one step of a
  relay or the end of a session, in any order. \<open>sys_decided\<close> is a history: every decision a relay has
  taken since the injector was built, with the injector's armed state at that moment.

  What one step takes together: an arm's store into the flag and into the injector's own field, which
  nobody can read in the middle of a call; and a relay's load of the flag with the decision and the
  write that follow it. A decision is thus dated by the load of the flag: a message whose relay has
  loaded the flag when a disarm comes is handled as the fault was then, even if its write comes after.
\<close>

section \<open>Definitions\<close>

type_synonym decision = "bool \<times> direction \<times> bytes \<times> intercept_action"

record 'a proxy_system =
  sys_injector :: "'a fix_fault_injector"
  sys_thread :: "accept_state option"
  sys_outbound :: relay_state
  sys_inbound :: relay_state
  sys_decided :: "decision list"

abbreviation sys_proxy :: "'a proxy_system \<Rightarrow> 'a fix_proxy" where
  "sys_proxy s \<equiv> fx_proxy (sys_injector s)"

definition system_init :: "string \<Rightarrow> string \<Rightarrow> string \<Rightarrow> 'a \<Rightarrow> 'a proxy_system" where
  "system_init i la ua a = \<lparr>sys_injector = FixFaultInjector_new i la ua a, sys_thread = None,
     sys_outbound = relay_init, sys_inbound = relay_init, sys_decided = []\<rparr>"

text \<open>The session as its relays see it, and what a relay's step leaves behind.\<close>

definition sys_session :: "'a proxy_system \<Rightarrow> 'a session" where
  "sys_session s = \<lparr>enabled = px_enabled (sys_proxy s), shutdown = px_shutdown (sys_proxy s),
     adapter = px_adapter (sys_proxy s), client_to_exchange = sys_outbound s, exchange_to_client = sys_inbound s\<rparr>"

definition store_session :: "'a session \<Rightarrow> 'a proxy_system \<Rightarrow> 'a proxy_system" where
  "store_session ss s = s\<lparr>sys_injector := (sys_injector s)\<lparr>fx_proxy := (sys_proxy s)\<lparr>px_adapter := adapter ss\<rparr>\<rparr>,
     sys_outbound := client_to_exchange ss, sys_inbound := exchange_to_client ss\<rparr>"

text \<open>Only \<^verbatim>\<open>start\<close> spawns the accept thread, when it turns the handle from absent to present.\<close>

definition spawned :: "'a fix_proxy \<Rightarrow> 'a fix_proxy \<Rightarrow> accept_state option \<Rightarrow> accept_state option" where
  "spawned px px' t = (if \<not> px_handle px \<and> px_handle px' then Some Listening else t)"

text \<open>The decision a step takes: none unless a relay finds a complete message and the adapter returns.\<close>

fun step_decision ::
  "profile \<Rightarrow> 'a adapter_ops \<Rightarrow> bool \<Rightarrow> 'a session \<Rightarrow> session_event \<Rightarrow> decision list" where
  "step_decision p ops armed ss (Message d write_ok) =
     (case find_complete_message p (buf (relay_of d ss)) of
        Ok (Some len) \<Rightarrow>
          (case decide ops d (enabled ss) (take len (buf (relay_of d ss))) (adapter ss) of
             (Some act, a') \<Rightarrow> [(armed, d, take len (buf (relay_of d ss)), act)]
           | (None, a') \<Rightarrow> [])
      | _ \<Rightarrow> [])"
| "step_decision p ops armed ss e = []"

fun relay_event :: "session_event \<Rightarrow> bool" where
  "relay_event (Read d r) = True"
| "relay_event (Message d write_ok) = True"
| "relay_event e = False"

text \<open>\<open>SysStart\<close> is the first half of an arm, up to the store into the flag: what the threads do between
  the two halves is a step in between. The argument of both is what binding the listener returned.\<close>

datatype system_event = SysStart "string option" | SysArm fault_context "string option" | SysDisarm
  | SysAccept accept_result | SysRelay session_event | SysJoined

inductive system_step ::
  "profile \<Rightarrow> 'a adapter_ops \<Rightarrow> 'a proxy_system \<Rightarrow> system_event \<Rightarrow> 'a proxy_system \<Rightarrow> bool"
  for p :: profile and ops :: "'a adapter_ops" where
  starts: "FixProxy_start (\<lambda>addr w. (b, w)) (sys_proxy s) () = (r, px, w) \<Longrightarrow>
    system_step p ops s (SysStart b)
      (s\<lparr>sys_injector := (sys_injector s)\<lparr>fx_proxy := px\<rparr>, sys_thread := spawned (sys_proxy s) px (sys_thread s)\<rparr>)"
| arms: "FixFaultInjector_arm (\<lambda>addr w. (b, w)) ctx (sys_injector s) () = (r, i, w) \<Longrightarrow>
    system_step p ops s (SysArm ctx b)
      (s\<lparr>sys_injector := i, sys_thread := spawned (sys_proxy s) (fx_proxy i) (sys_thread s)\<rparr>)"
| disarms: "FixFaultInjector_disarm (sys_injector s) () = (r, i, w) \<Longrightarrow>
    system_step p ops s SysDisarm (s\<lparr>sys_injector := i\<rparr>)"
| accepts: "sys_thread s = Some Listening \<Longrightarrow> accept_turn (px_shutdown (sys_proxy s)) r Listening = t \<Longrightarrow>
    system_step p ops s (SysAccept r)
      (if t = InSession then s\<lparr>sys_thread := Some t, sys_outbound := relay_init, sys_inbound := relay_init\<rparr>
       else s\<lparr>sys_thread := Some t\<rparr>)"
| relays: "sys_thread s = Some InSession \<Longrightarrow> relay_event e \<Longrightarrow> session_step p ops (sys_session s) e ss \<Longrightarrow>
    system_step p ops s (SysRelay e)
      (store_session ss (s\<lparr>sys_decided := sys_decided s
         @ step_decision p ops (fx_armed (sys_injector s)) (sys_session s) e\<rparr>))"
| joined: "sys_thread s = Some InSession \<Longrightarrow> session_over (sys_session s) \<Longrightarrow>
    system_step p ops s SysJoined (s\<lparr>sys_thread := Some Listening\<rparr>)"

inductive system_run ::
  "profile \<Rightarrow> 'a adapter_ops \<Rightarrow> 'a proxy_system \<Rightarrow> system_event list \<Rightarrow> 'a proxy_system \<Rightarrow> bool"
  for p :: profile and ops :: "'a adapter_ops" and s :: "'a proxy_system" where
  nil: "system_run p ops s [] s"
| snoc: "system_run p ops s es s' \<Longrightarrow> system_step p ops s' e s'' \<Longrightarrow> system_run p ops s (es @ [e]) s''"

inductive_cases system_stepE: "system_step p ops s e s'"

section \<open>Sessions inside the system\<close>

lemma sys_session_simps [simp]:
  "enabled (sys_session s) = px_enabled (sys_proxy s)" "shutdown (sys_session s) = px_shutdown (sys_proxy s)"
  "adapter (sys_session s) = px_adapter (sys_proxy s)" "relay_of Outbound (sys_session s) = sys_outbound s"
  "relay_of Inbound (sys_session s) = sys_inbound s"
  "sys_session (s\<lparr>sys_thread := t\<rparr>) = sys_session s" "sys_session (s\<lparr>sys_decided := xs\<rparr>) = sys_session s"
  by (simp_all add: sys_session_def)

lemma relay_step_flags:
  "session_step p ops ss e ss' \<Longrightarrow> relay_event e \<Longrightarrow> enabled ss' = enabled ss \<and> shutdown ss' = shutdown ss"
  by (erule session_stepE) auto

lemma store_session_simps [simp]:
  "sys_thread (store_session ss s) = sys_thread s" "sys_decided (store_session ss s) = sys_decided s"
  "fx_armed (sys_injector (store_session ss s)) = fx_armed (sys_injector s)"
  "sys_proxy (store_session ss s) = (sys_proxy s)\<lparr>px_adapter := adapter ss\<rparr>"
  by (simp_all add: store_session_def)

lemma sys_session_store:
  assumes "session_step p ops (sys_session s) e ss" and "relay_event e"
  shows "sys_session (store_session ss (s\<lparr>sys_decided := xs\<rparr>)) = ss"
  using relay_step_flags [OF assms] by (cases ss) (simp add: store_session_def sys_session_def)

text \<open>A call on the injector is, to the session, a store into the flag or nothing.\<close>

lemma start_cases:
  assumes "FixProxy_start (\<lambda>addr w. (b, w)) px () = (r, px', w)"
  obtains "px' = px" "px_handle px \<or> b \<noteq> None" | "\<not> px_handle px" "px' = px\<lparr>px_handle := True\<rparr>"
  using assms by (auto simp: FixProxy_start_def split: if_splits option.splits)

lemma arm_cases:
  assumes "FixFaultInjector_arm (\<lambda>addr w. (b, w)) ctx i () = (r, i', w)"
  obtains "i' = i" "\<not> px_handle (fx_proxy i)"
  | "i' = i\<lparr>fx_proxy := (fx_proxy i)\<lparr>px_handle := True, px_enabled := True\<rparr>, fx_armed := True\<rparr>"
proof -
  obtain r0 px' w0 where st: "FixProxy_start (\<lambda>addr w. (b, w)) (fx_proxy i) () = (r0, px', w0)"
    by (metis prod_cases3)
  have i: "i\<lparr>fx_proxy := fx_proxy i\<rparr> = i" by simp
  from st show thesis
    by (cases rule: FixProxy_start_cases)
      (use assms st that i in \<open>auto simp: FixFaultInjector_arm_def\<close>)
qed

text \<open>The states a session of its own can get to.\<close>

definition reachable_session :: "profile \<Rightarrow> 'a adapter_ops \<Rightarrow> 'a session \<Rightarrow> bool" where
  "reachable_session p ops ss \<longleftrightarrow> (\<exists>en sd a es. session_run p ops (session_init en sd a) es ss)"

lemma reachable_session_init [simp]: "reachable_session p ops (session_init en sd a)"
  unfolding reachable_session_def by (blast intro: session_run.nil)

lemma reachable_session_step:
  "reachable_session p ops ss \<Longrightarrow> session_step p ops ss e ss' \<Longrightarrow> reachable_session p ops ss'"
  unfolding reachable_session_def by (blast intro: session_run.snoc)

lemma reachable_session_flag: "reachable_session p ops ss \<Longrightarrow> reachable_session p ops (ss\<lparr>enabled := b\<rparr>)"
  by (erule reachable_session_step) (rule session_step.set_enabled)

lemma system_step_session:
  assumes "system_step p ops s e s'" and "sys_thread s' = Some InSession"
    and IH: "sys_thread s = Some InSession \<Longrightarrow> reachable_session p ops (sys_session s)"
  shows "reachable_session p ops (sys_session s')"
  using assms(1)
proof (cases rule: system_step.cases)
  case (starts b r px w)
  from starts(3) show ?thesis
    by (cases rule: start_cases)
      (use starts assms(2) IH in \<open>auto simp: spawned_def sys_session_def\<close>)
next
  case (arms b ctx r i' w)
  from arms(3) show ?thesis
  proof (cases rule: arm_cases)
    case 2
    then have "sys_session s' = (sys_session s)\<lparr>enabled := True\<rparr>" using arms by (simp add: sys_session_def)
    then show ?thesis
      using 2 arms assms(2) reachable_session_flag IH by (auto simp: spawned_def split: if_splits)
  qed (use arms assms(2) IH in \<open>auto simp: spawned_def sys_session_def\<close>)
next
  case (disarms r i' w)
  then have "sys_session s' = (sys_session s)\<lparr>enabled := False\<rparr>"
    by (auto simp: FixFaultInjector_disarm_def sys_session_def)
  with disarms assms(2) IH reachable_session_flag show ?thesis by auto
next
  case (accepts r t)
  then have "sys_session s' = session_init (px_enabled (sys_proxy s)) (px_shutdown (sys_proxy s)) (px_adapter (sys_proxy s))"
    using assms(2) by (auto simp: sys_session_def session_init_def split: if_splits)
  then show ?thesis by simp
next
  case (relays e' ss)
  then show ?thesis
    using IH reachable_session_step sys_session_store [OF relays(5,4)] by metis
next
  case joined
  then show ?thesis using assms(2) by simp
qed

lemma system_session_reachable:
  assumes "system_run p ops (system_init i la ua a) es s" and "sys_thread s = Some InSession"
  shows "reachable_session p ops (sys_session s)"
  using assms
proof (induction rule: system_run.induct)
  case nil
  then show ?case by (simp add: system_init_def)
next
  case (snoc es s' e s'')
  then show ?case using system_step_session by metis
qed

section \<open>Invariants of the system\<close>

text \<open>The relays' flag is the injector's own, nobody asks the proxy to shut down, and a handle is kept
  exactly when an accept thread was spawned, whatever has become of it.\<close>

definition sys_flags :: "'a proxy_system \<Rightarrow> bool" where
  "sys_flags s \<longleftrightarrow> fix_injector_inv (sys_injector s) \<and> \<not> px_shutdown (sys_proxy s)
     \<and> (px_handle (sys_proxy s) \<longleftrightarrow> sys_thread s \<noteq> None)"

lemma sys_flags_step:
  assumes "system_step p ops s e s'" and "sys_flags s"
  shows "sys_flags s'"
  using assms(1)
proof (cases rule: system_step.cases)
  case (starts b r px w)
  from starts(3) show ?thesis
    by (cases rule: start_cases)
      (use starts assms(2) in \<open>auto simp: sys_flags_def spawned_def fix_injector_inv_def\<close>)
next
  case (arms b ctx r i' w)
  from arms(3) show ?thesis
    by (cases rule: arm_cases)
      (use arms assms(2) in \<open>auto simp: sys_flags_def spawned_def fix_injector_inv_def\<close>)
qed (use assms(2) in \<open>auto simp: sys_flags_def fix_injector_inv_def FixFaultInjector_disarm_def\<close>)

lemma sys_flags_init [simp]: "sys_flags (system_init i la ua a)"
  by (simp add: sys_flags_def system_init_def fix_injector_inv_def FixFaultInjector_new_def FixProxy_new_def)

lemma sys_flags_run: "system_run p ops s0 es s \<Longrightarrow> sys_flags s0 \<Longrightarrow> sys_flags s"
  by (induction rule: system_run.induct) (auto intro: sys_flags_step)

text \<open>Only the step of a relay touches the adapter, the decisions or what a relay has handled.\<close>

lemma relay_of_session:
  "relay_of d (sys_session s) = (case d of Outbound \<Rightarrow> sys_outbound s | Inbound \<Rightarrow> sys_inbound s)"
  by (cases d) (simp_all add: sys_session_def)

lemma system_step_quiet:
  assumes "system_step p ops s e s'" and "\<And>e'. e \<noteq> SysRelay e'"
  shows "px_adapter (sys_proxy s') = px_adapter (sys_proxy s) \<and> sys_decided s' = sys_decided s
    \<and> (relay_of d (sys_session s') = relay_of d (sys_session s) \<or> relay_of d (sys_session s') = relay_init)"
  using assms(1)
proof (cases rule: system_step.cases)
  case (starts b r px w)
  from starts(3) show ?thesis
    by (cases rule: start_cases) (use starts in \<open>auto simp: relay_of_session split: direction.splits\<close>)
next
  case (arms b ctx r i' w)
  from arms(3) show ?thesis
    by (cases rule: arm_cases) (use arms in \<open>auto simp: relay_of_session split: direction.splits\<close>)
qed (use assms(2) in \<open>auto simp: relay_of_session FixFaultInjector_disarm_def split: direction.splits\<close>)

lemma relay_step_handled:
  assumes "session_step p ops ss e ss'" and "relay_event e" and "(m, act) \<in> set (handled (relay_of d ss'))"
  shows "(m, act) \<in> set (handled (relay_of d ss)) \<or> (b, d, m, act) \<in> set (step_decision p ops b ss e)"
  using assms(1)
proof (cases rule: session_step.cases)
  case (read d' r)
  then show ?thesis using assms(3) by (auto simp: relay_read_def split: if_splits read_result.splits)
next
  case (message d' wr st a')
  from message(4) show ?thesis
    by (cases rule: relay_message_cases) (use message assms(3) in \<open>auto split: if_splits\<close>)
qed (use assms(2) in auto)

text \<open>What a decision in the history tells: no fault on the other side, none while not armed.\<close>

definition fault_while_armed :: "direction \<Rightarrow> decision \<Rightarrow> bool" where
  "fault_while_armed sd x \<longleftrightarrow> (case x of (armed, d, m, act) \<Rightarrow> act \<noteq> Forward \<longrightarrow> armed \<and> d = sd)"

definition handled_decided :: "'a proxy_system \<Rightarrow> bool" where
  "handled_decided s \<longleftrightarrow> (\<forall>d m act. (m, act) \<in> set (handled (relay_of d (sys_session s))) \<longrightarrow>
     (\<exists>armed. (armed, d, m, act) \<in> set (sys_decided s)))"

lemma handled_decided_step:
  assumes "system_step p ops s e s'" and "handled_decided s"
  shows "handled_decided s'"
proof (cases "\<exists>e'. e = SysRelay e'")
  case False
  have "set (handled (relay_of d (sys_session s'))) \<subseteq> set (handled (relay_of d (sys_session s)))" for d
    using system_step_quiet [OF assms(1), of d] False by (auto simp: relay_init_def)
  moreover have "sys_decided s' = sys_decided s" using system_step_quiet [OF assms(1)] False by blast
  ultimately show ?thesis using assms(2) unfolding handled_decided_def by (metis subsetD)
next
  case True
  with assms(1) obtain e' ss where e: "relay_event e'" "session_step p ops (sys_session s) e' ss"
    and s': "s' = store_session ss (s\<lparr>sys_decided := sys_decided s
         @ step_decision p ops (fx_armed (sys_injector s)) (sys_session s) e'\<rparr>)"
    by (auto elim: system_stepE)
  have "sys_session s' = ss" unfolding s' by (rule sys_session_store [OF e(2,1)])
  moreover have "sys_decided s' = sys_decided s @ step_decision p ops (fx_armed (sys_injector s)) (sys_session s) e'"
    by (simp add: s')
  ultimately show ?thesis
    using relay_step_handled [OF e(2,1), of _ _ _ "fx_armed (sys_injector s)"] assms(2)
    unfolding handled_decided_def by (metis Un_iff set_append)
qed

context protocol_adapter
begin

lemma step_decision_armed:
  assumes "x \<in> set (step_decision p ops armed ss e)" and "enabled ss = armed"
  shows "fault_while_armed (side (adapter ss)) x"
proof (cases e)
  case (Message d wr)
  with assms(1) obtain m act a' where x: "x = (armed, d, m, act)" and "decide ops d armed m (adapter ss) = (Some act, a')"
    using assms(2) by (auto dest: sym split: outcome.splits option.splits prod.splits)
  then show ?thesis
    using decide_other_side [of d "adapter ss" armed m] by (cases armed) (auto simp: fault_while_armed_def)
qed (use assms(1) in auto)

lemma session_step_side:
  "session_step p ops ss e ss' \<Longrightarrow> side (adapter ss') = side (adapter ss)"
  by (erule session_stepE) (auto dest: message_keeps_side)

lemma system_step_side:
  assumes "system_step p ops s e s'" and "sys_flags s" and "side (px_adapter (sys_proxy s)) = sd"
    and "\<forall>x \<in> set (sys_decided s). fault_while_armed sd x"
  shows "side (px_adapter (sys_proxy s')) = sd \<and> (\<forall>x \<in> set (sys_decided s'). fault_while_armed sd x)"
proof (cases "\<exists>e'. e = SysRelay e'")
  case False
  then show ?thesis using system_step_quiet [OF assms(1)] assms(3,4) by metis
next
  case True
  with assms(1) obtain e' ss where e: "session_step p ops (sys_session s) e' ss"
    and s': "s' = store_session ss (s\<lparr>sys_decided := sys_decided s
         @ step_decision p ops (fx_armed (sys_injector s)) (sys_session s) e'\<rparr>)"
    by (auto elim: system_stepE)
  have "enabled (sys_session s) = fx_armed (sys_injector s)"
    using assms(2) by (simp add: sys_flags_def fix_injector_inv_def)
  from step_decision_armed [OF _ this] session_step_side [OF e] assms(3,4) show ?thesis
    by (auto simp: s')
qed

lemma system_run_side:
  assumes "system_run p ops (system_init i la ua a) es s"
  shows "side (px_adapter (sys_proxy s)) = side a \<and> (\<forall>x \<in> set (sys_decided s). fault_while_armed (side a) x)"
  using assms
proof (induction rule: system_run.induct)
  case nil
  then show ?case by (simp add: system_init_def FixFaultInjector_new_def FixProxy_new_def)
next
  case (snoc es s' e s'')
  then show ?case using system_step_side sys_flags_run sys_flags_init by metis
qed

end

lemma handled_decided_run:
  assumes "system_run p ops (system_init i la ua a) es s"
  shows "handled_decided s"
  using assms
proof (induction rule: system_run.induct)
  case nil
  show ?case by (simp add: handled_decided_def system_init_def relay_of_session relay_init_def split: direction.split)
qed (rule handled_decided_step)

subsection \<open>The throttle's count\<close>

lemma relay_message_adapter:
  "relay_message p ops d en wr st a = (st', a') \<Longrightarrow>
     a' = (case find_complete_message p (buf st) of
             Ok (Some len) \<Rightarrow> snd (decide ops d en (take len (buf st)) a) | _ \<Rightarrow> a)"
  by (auto simp: relay_message_def Let_def split: outcome.splits option.splits prod.splits)

definition counted :: "decision \<Rightarrow> bool" where
  "counted x \<longleftrightarrow> fst x \<and> fst (snd x) = Outbound"

abbreviation acted :: "decision \<Rightarrow> intercept_action" where
  "acted x \<equiv> snd (snd (snd x))"

abbreviation throttle_at :: "u64 \<Rightarrow> nat \<Rightarrow> fix_adapter" where
  "throttle_at thr c \<equiv> FixRateLimitThrottle \<lparr>threshold = thr, throttle_count = of_nat c\<rparr>"

lemma decide_throttle:
  assumes "Suc c < 2 ^ 64"
  shows "decide (fix_ops p) d en m (throttle_at thr c) =
    (if en \<and> d = Outbound then (Some (if c < unat thr then Forward else Drop), throttle_at thr (Suc c))
     else (Some Forward, throttle_at thr c))"
proof (cases "d = Outbound")
  case True
  have "FixRateLimitThrottle_intercept p \<lparr>threshold = thr, throttle_count = of_nat c\<rparr> \<lparr>msg_bytes = m, msg_direction = d\<rparr>
      = (Ok (if unat thr < Suc c then Drop else Forward), \<lparr>threshold = thr, throttle_count = of_nat (Suc c)\<rparr>)"
    using throttle_step [of "\<lparr>threshold = thr, throttle_count = of_nat c\<rparr>" c "\<lparr>msg_bytes = m, msg_direction = d\<rparr>" p]
      assms True by simp
  then show ?thesis using True by (simp add: decide_def fix_ops_def del: of_nat_Suc)
next
  case False
  then show ?thesis using fixad.decide_other_side [of d "throttle_at thr c" p en m] by simp
qed

text \<open>One step of a relay, with the count equal to the counted decisions so far.\<close>

lemma throttle_relay_step:
  assumes "session_step p (fix_ops p) ss e ss'" and "relay_event e" and "Suc c < 2 ^ 64"
    and "adapter ss = throttle_at thr c"
  shows "\<exists>n. adapter ss' = throttle_at thr (c + n)
    \<and> map acted (filter counted (step_decision p (fix_ops p) (enabled ss) ss e))
        = map (\<lambda>k. if k < unat thr then Forward else Drop) [c..<c + n]"
  using assms(1)
proof (cases rule: session_step.cases)
  case (read d r)
  then show ?thesis using assms(4) by (intro exI [where x = 0]) simp
next
  case (message d wr st a')
  note a' = relay_message_adapter [OF message(4)]
  show ?thesis
  proof (cases "\<exists>len. find_complete_message p (buf (relay_of d ss)) = Ok (Some len)")
    case False
    then show ?thesis using a' message(1,2) assms(4)
      by (intro exI [where x = 0]) (auto split: outcome.splits option.splits)
  next
    case True
    then obtain len where "find_complete_message p (buf (relay_of d ss)) = Ok (Some len)" by blast
    then show ?thesis
      using a' message(1,2) decide_throttle [OF assms(3), of p d "enabled ss" "take len (buf (relay_of d ss))" thr] assms(4)
      by (intro exI [where x = "if enabled ss \<and> d = Outbound then 1 else 0"])
        (auto simp: counted_def)
  qed
qed (use assms(2) in auto)

lemma throttle_run:
  assumes "system_run p (fix_ops p) (system_init i la ua (throttle_at thr 0)) es s"
    and "length (filter counted (sys_decided s)) < 2 ^ 64 - 1"
  shows "px_adapter (sys_proxy s) = throttle_at thr (length (filter counted (sys_decided s)))
    \<and> map acted (filter counted (sys_decided s))
        = map (\<lambda>k. if k < unat thr then Forward else Drop) [0..<length (filter counted (sys_decided s))]"
  using assms
proof (induction rule: system_run.induct)
  case nil
  then show ?case by (simp add: system_init_def FixFaultInjector_new_def FixProxy_new_def)
next
  case (snoc es s' e s'')
  let ?c = "length (filter counted (sys_decided s'))"
  let ?act = "\<lambda>k. if k < unat thr then Forward else Drop"
  show ?case
  proof (cases "\<exists>e'. e = SysRelay e'")
    case False
    then have "px_adapter (sys_proxy s'') = px_adapter (sys_proxy s') \<and> sys_decided s'' = sys_decided s'"
      using system_step_quiet [OF snoc.hyps(2)] by blast
    with snoc.IH snoc.prems show ?thesis by simp
  next
    case True
    with snoc.hyps(2) obtain e' ss where e: "session_step p (fix_ops p) (sys_session s') e' ss" "relay_event e'"
      and s'': "s'' = store_session ss (s'\<lparr>sys_decided := sys_decided s'
           @ step_decision p (fix_ops p) (fx_armed (sys_injector s')) (sys_session s') e'\<rparr>)"
      by (auto elim: system_stepE)
    let ?new = "step_decision p (fix_ops p) (enabled (sys_session s')) (sys_session s') e'"
    have armed: "fx_armed (sys_injector s') = enabled (sys_session s')"
      using sys_flags_run [OF snoc.hyps(1) sys_flags_init] by (simp add: sys_flags_def fix_injector_inv_def)
    have c: "?c < 2 ^ 64 - 1" using snoc.prems by (simp add: s'')
    note IH = snoc.IH [OF c]
    have "Suc ?c < 2 ^ 64" "adapter (sys_session s') = throttle_at thr ?c" using c IH by simp_all
    from throttle_relay_step [OF e this] obtain n where n: "adapter ss = throttle_at thr (?c + n)"
        "map acted (filter counted ?new) = map ?act [?c..<?c + n]" by blast
    from arg_cong [OF n(2), of length] have len: "length (filter counted ?new) = n" by simp
    have dec: "filter counted (sys_decided s'') = filter counted (sys_decided s') @ filter counted ?new"
      by (simp add: s'' armed)
    have "px_adapter (sys_proxy s'') = throttle_at thr (?c + n)" unfolding s'' using n(1) by simp
    moreover have "map ?act [0..<?c + n] = map ?act [0..<?c] @ map ?act [?c..<?c + n]"
      using upt_add_eq_append [of 0 ?c n] by (simp only: map_append le0)
    ultimately show ?thesis
      using IH n(2) by (simp only: dec len map_append length_append simp_thms)
  qed
qed

subsection \<open>A run to look at\<close>

text \<open>Two messages come in one read; the injector is disarmed and armed again between them.\<close>

definition demo_sys :: "nat \<Rightarrow> bool \<Rightarrow> accept_state \<Rightarrow> relay_state \<Rightarrow> decision list \<Rightarrow> fix_adapter proxy_system" where
  "demo_sys c armed t st xs = \<lparr>sys_injector = \<lparr>fx_id = ''t'',
       fx_proxy = \<lparr>listen_addr = ''a:1'', upstream_addr = ''b:2'', px_adapter = throttle_at 1 c,
         px_enabled = armed, px_handle = True, px_shutdown = False\<rparr>, fx_armed = armed\<rparr>,
     sys_thread = Some t, sys_outbound = st, sys_inbound = relay_init, sys_decided = xs\<rparr>"

abbreviation demo_ctx :: fault_context where
  "demo_ctx \<equiv> \<lparr>ctx_clock = SystemClock, ctx_seed = 1\<rparr>"

abbreviation demo_relay :: "bytes \<Rightarrow> (bytes \<times> intercept_action) list \<Rightarrow> relay_state" where
  "demo_relay b xs \<equiv> \<lparr>phase = Framing, buf = b, bytes_in = demo_msg @ demo_msg, handled = xs\<rparr>"

lemmas demo_step_simps = demo_sys_def FixFaultInjector_arm_def FixFaultInjector_disarm_def FixProxy_start_def
  spawned_def system_init_def FixFaultInjector_new_def FixProxy_new_def

lemma demo_arm_first:
  "system_step p ops (system_init ''t'' ''a:1'' ''b:2'' (throttle_at 1 0)) (SysArm demo_ctx None)
     (demo_sys 0 True Listening relay_init [])"
  using system_step.arms [of None demo_ctx "system_init ''t'' ''a:1'' ''b:2'' (throttle_at 1 0)" _ _ _ p ops]
  by (simp add: demo_step_simps)

lemma demo_arm_again:
  "system_step p ops (demo_sys c False t st xs) (SysArm demo_ctx (Some ''in use'')) (demo_sys c True t st xs)"
  using system_step.arms [of "Some ''in use''" demo_ctx "demo_sys c False t st xs" _ _ _ p ops]
  by (simp add: demo_step_simps)

lemma demo_disarm: "system_step p ops (demo_sys c True t st xs) SysDisarm (demo_sys c False t st xs)"
  using system_step.disarms [of "demo_sys c True t st xs" _ _ _ p ops] by (simp add: demo_step_simps)

lemma demo_accept:
  "system_step p ops (demo_sys c armed Listening st xs) (SysAccept (Accepted (Connected True True)))
     (demo_sys c armed InSession relay_init xs)"
  "system_step p ops (demo_sys c armed Listening st xs) (SysAccept AcceptFailed) (demo_sys c armed ThreadEnded st xs)"
  using system_step.accepts [of "demo_sys c armed Listening st xs" "Accepted (Connected True True)" _ p ops]
    system_step.accepts [of "demo_sys c armed Listening st xs" AcceptFailed _ p ops]
  by (simp_all add: demo_sys_def run_session_start_def)

lemma demo_read:
  "system_step p ops (demo_sys c armed InSession relay_init xs) (SysRelay (Read Outbound (Data (demo_msg @ demo_msg))))
     (demo_sys c armed InSession (demo_relay (demo_msg @ demo_msg) []) xs)"
proof -
  let ?s = "demo_sys c armed InSession relay_init xs" and ?r = "Data (demo_msg @ demo_msg)"
  let ?ss = "set_relay Outbound (relay_read False ?r relay_init) (sys_session ?s)"
  have "session_step p ops (sys_session ?s) (Read Outbound ?r) ?ss"
    using session_step.read [of Outbound "sys_session ?s" ?r p ops] demo_len demo_whole
    by (simp add: demo_sys_def relay_init_def whole_nonempty sys_session_def)
  from system_step.relays [OF _ _ this] show ?thesis
    by (simp add: demo_sys_def sys_session_def store_session_def relay_read_def relay_init_def)
qed

lemma demo_message:
  assumes "act = (if c < 1 then Forward else Drop)" and "c < 9"
  shows "system_step Debug (fix_ops Debug) (demo_sys c True InSession (demo_relay (demo_msg @ b) hs) xs)
     (SysRelay (Message Outbound True))
     (demo_sys (Suc c) True InSession (demo_relay b (hs @ [(demo_msg, act)])) (xs @ [(True, Outbound, demo_msg, act)]))"
proof -
  let ?st = "demo_relay (demo_msg @ b) hs" and ?st' = "demo_relay b (hs @ [(demo_msg, act)])"
  let ?s = "demo_sys c True InSession ?st xs"
  let ?ss = "set_relay Outbound ?st' ((sys_session ?s)\<lparr>adapter := throttle_at 1 (Suc c)\<rparr>)"
  have f: "find_complete_message Debug (demo_msg @ b) = Ok (Some (length demo_msg))"
    using find_in_stream [OF demo_whole, of "demo_msg @ b" "[]" b] by simp
  have d: "decide (fix_ops Debug) Outbound True demo_msg (throttle_at 1 c) = (Some act, throttle_at 1 (Suc c))"
    using decide_throttle [of c Debug Outbound True demo_msg 1] assms by (simp del: of_nat_Suc)
  have "relay_message Debug (fix_ops Debug) Outbound True True ?st (throttle_at 1 c) = (?st', throttle_at 1 (Suc c))"
    using f d by (simp add: relay_message_def Let_def del: of_nat_Suc)
  then have "session_step Debug (fix_ops Debug) (sys_session ?s) (Message Outbound True) ?ss"
    using session_step.message [of Outbound "sys_session ?s" Debug "fix_ops Debug" True]
    by (simp add: demo_sys_def sys_session_def del: of_nat_Suc)
  from system_step.relays [OF _ _ this] f d show ?thesis
    by (simp add: demo_sys_def sys_session_def store_session_def del: of_nat_Suc)
qed

lemma demo_run_arms:
  "system_run Debug (fix_ops Debug) (system_init ''t'' ''a:1'' ''b:2'' (throttle_at 1 0))
     [SysArm demo_ctx None, SysAccept (Accepted (Connected True True)),
      SysRelay (Read Outbound (Data (demo_msg @ demo_msg))), SysRelay (Message Outbound True),
      SysDisarm, SysArm demo_ctx (Some ''in use''), SysRelay (Message Outbound True)]
     (demo_sys 2 True InSession (demo_relay [] [(demo_msg, Forward), (demo_msg, Drop)])
       [(True, Outbound, demo_msg, Forward), (True, Outbound, demo_msg, Drop)])"
proof -
  note one = demo_message [of Forward 0 demo_msg "[]" "[]", simplified]
  note two = demo_message [of Drop 1 "[]" "[(demo_msg, Forward)]" "[(True, Outbound, demo_msg, Forward)]", simplified]
  note r1 = system_run.snoc [OF system_run.nil demo_arm_first]
  note r3 = system_run.snoc [OF system_run.snoc [OF r1 demo_accept(1)] demo_read]
  note r5 = system_run.snoc [OF system_run.snoc [OF r3 one] demo_disarm]
  note r7 = system_run.snoc [OF system_run.snoc [OF r5 demo_arm_again] two]
  from r7 show ?thesis by (simp add: numeral_2_eq_2)
qed

section \<open>Properties\<close>



text \<open>
  C9: a FIX fault shows only while its injector is armed. However calls on the injector, connections
  and the relays interleave, every decision other than to forward was taken while the injector was
  armed, as the relay's load of the flag dates it, and on the direction its adapter works on, and every
  message a relay of the session has handled was handled by a decision in the history; the flag the relays read is the injector's armed state.
\<close>

theorem system_faults_only_while_armed:
  assumes "system_run p (fix_ops p) (system_init i la ua a) es s"
  shows "(\<forall>(armed, d, m, act) \<in> set (sys_decided s). act \<noteq> Forward \<longrightarrow> armed \<and> d = fault_side a)
    \<and> (\<forall>d m act. (m, act) \<in> set (handled (relay_of d (sys_session s))) \<longrightarrow>
         (\<exists>armed. (armed, d, m, act) \<in> set (sys_decided s)))
    \<and> px_enabled (sys_proxy s) = fx_armed (sys_injector s)"
  using fixad.system_run_side [OF assms] handled_decided_run [OF assms] sys_flags_run [OF assms sys_flags_init]
  by (auto simp: fault_while_armed_def handled_decided_def sys_flags_def fix_injector_inv_def)

theorem system_faults_only_while_armed_witness:
  "let s = demo_sys 2 True InSession (demo_relay [] [(demo_msg, Forward), (demo_msg, Drop)])
       [(True, Outbound, demo_msg, Forward), (True, Outbound, demo_msg, Drop)]
   in (True, Outbound, demo_msg, Drop) \<in> set (sys_decided s)
      \<and> fault_side (throttle_at 1 0) = Outbound \<and> px_enabled (sys_proxy s)"
  using system_faults_only_while_armed [OF demo_run_arms] unfolding Let_def by (simp add: demo_sys_def)

text \<open>
  C10: the throttle counts for the life of its injector. Over all sessions and through any disarming and
  arming again, exactly the first \<open>threshold\<close> outbound messages decided while armed pass and every
  later one is dropped: arming does not start the count afresh.
\<close>

theorem system_throttle_exact:
  assumes "system_run p (fix_ops p) (system_init i la ua (FixRateLimitThrottle (FixRateLimitThrottle_new thr))) es s"
    and "xs = filter (\<lambda>(armed, d, m, act). armed \<and> d = Outbound) (sys_decided s)" and "length xs < 2 ^ 64 - 1"
  shows "map (\<lambda>(armed, d, m, act). act) xs
    = map (\<lambda>k. if k < unat thr then Forward else Drop) [0..<length xs]"
proof -
  have xs: "xs = filter counted (sys_decided s)"
    unfolding assms(2) by (rule filter_cong) (auto simp: counted_def)
  have "FixRateLimitThrottle (FixRateLimitThrottle_new thr) = throttle_at thr 0"
    by (simp add: FixRateLimitThrottle_new_def)
  note run = assms(1) [unfolded this]
  from throttle_run [OF run] assms(3) show ?thesis by (simp add: xs split_def)
qed

theorem system_throttle_exact_witness:
  "map (\<lambda>(armed, d, m, act). act) [(True, Outbound, demo_msg, Forward), (True, Outbound, demo_msg, Drop)]
    = map (\<lambda>k. if k < unat (1 :: u64) then Forward else Drop) [0..<2]"
proof -
  have "FixRateLimitThrottle (FixRateLimitThrottle_new 1) = throttle_at 1 0"
    by (simp add: FixRateLimitThrottle_new_def)
  from system_throttle_exact [OF demo_run_arms [folded this] refl] show ?thesis
    by (simp add: demo_sys_def numeral_2_eq_2)
qed

text \<open>
  C35: a proxy that has lost its accept thread is not noticed. Once the thread has ended on a failed
  accept or panicked on a failed clone, no call brings it back and no message is decided again, while
  every arm keeps reporting success and the injector keeps reporting that it is armed.
\<close>

theorem dead_proxy_still_arms:
  assumes "system_run p ops (system_init i la ua a) es s" and "sys_thread s \<in> {Some ThreadEnded, Some ThreadPanicked}"
    and "system_run p ops s es' s'"
  shows "sys_thread s' = sys_thread s \<and> sys_decided s' = sys_decided s
    \<and> (\<forall>bind ctx w. \<exists>j. FixFaultInjector_arm bind ctx (sys_injector s') w = (Ok (), j, w) \<and> fx_armed j)"
proof -
  have step: "sys_thread s2 = sys_thread s1 \<and> sys_decided s2 = sys_decided s1"
    if "system_step p ops s1 e s2" and "sys_flags s1" and "sys_thread s1 \<in> {Some ThreadEnded, Some ThreadPanicked}"
    for s1 s2 e
    using that(1) by (cases rule: system_step.cases) (use that(2,3) in \<open>auto simp: spawned_def sys_flags_def\<close>)
  have flags: "sys_flags s" using sys_flags_run [OF assms(1)] by simp
  have run: "sys_thread s' = sys_thread s \<and> sys_decided s' = sys_decided s \<and> sys_flags s'"
    using assms(3)
  proof (induction rule: system_run.induct)
    case (snoc es s1 e s2)
    then show ?case using step [OF snoc.hyps(2)] sys_flags_step [OF snoc.hyps(2)] assms(2) by metis
  qed (simp add: flags)
  then have "px_handle (sys_proxy s')" using assms(2) by (auto simp: sys_flags_def)
  with run show ?thesis by (simp add: FixFaultInjector_arm_def FixProxy_start_def)
qed

theorem dead_proxy_still_arms_witness:
  "let s = demo_sys 0 True ThreadEnded relay_init []
   in system_run Debug (fix_ops Debug) (system_init ''t'' ''a:1'' ''b:2'' (throttle_at 1 0))
        [SysArm demo_ctx None, SysAccept AcceptFailed] s
      \<and> (\<exists>j. FixFaultInjector_arm (\<lambda>addr w. (Some ''in use'', w)) demo_ctx (sys_injector s) () = (Ok (), j, ()) \<and> fx_armed j)"
proof -
  let ?s = "demo_sys 0 True ThreadEnded relay_init []"
  have run: "system_run Debug (fix_ops Debug) (system_init ''t'' ''a:1'' ''b:2'' (throttle_at 1 0))
        [SysArm demo_ctx None, SysAccept AcceptFailed] ?s"
    using system_run.snoc [OF system_run.snoc [OF system_run.nil demo_arm_first] demo_accept(2)] by simp
  have "sys_thread ?s \<in> {Some ThreadEnded, Some ThreadPanicked}" by (simp add: demo_sys_def)
  from dead_proxy_still_arms [OF run this system_run.nil, THEN conjunct2, THEN conjunct2, rule_format,
      of "\<lambda>addr w. (Some ''in use'', w)" demo_ctx "()"] run show ?thesis unfolding Let_def by blast
qed

end
