(* ===== verification/Schedule.thy ===== *)
theory Schedule
  imports Core_Types
begin

text \<open>
  \<^verbatim>\<open>replay/src/schedule.rs\<close>: \<^verbatim>\<open>ValidatedSchedule\<close> and its only constructor \<^verbatim>\<open>validate\<close>. The
  loop over the steps carries the set of armed faults and the time of the last step. The abstract
  specification says what a well-formed schedule is without a loop: times never decrease, and for
  every single fault the actions alternate, starting with an arm. \<open>validate\<close> is shown to accept
  exactly those, and to name the first offending step otherwise.
\<close>

section \<open>Definitions\<close>

record validated_schedule =
  vs_scenario :: scenario

fun validate_steps :: "string set \<Rightarrow> u64 \<Rightarrow> scenario_step list \<Rightarrow> (unit, harness_error) outcome" where
  "validate_steps armed last_ns [] = Ok ()"
| "validate_steps armed last_ns (step # rest) =
     (if at_ns step < last_ns
      then Err (InvalidScenario (''step for '' @ fault_id step @ '' at '' @ dec_string (unat (at_ns step))
             @ ''ns is out of order, previous step was at '' @ dec_string (unat last_ns) @ ''ns''))
      else case action step of
        Arm \<Rightarrow>
          if fault_id step \<in> armed
          then Err (InvalidScenario (''fault '' @ fault_id step
                 @ '' armed twice without an intervening disarm''))
          else validate_steps (insert (fault_id step) armed) (at_ns step) rest
      | Disarm \<Rightarrow>
          if fault_id step \<notin> armed
          then Err (InvalidScenario (''fault '' @ fault_id step @ '' disarmed but was never armed''))
          else validate_steps (armed - {fault_id step}) (at_ns step) rest)"

definition ValidatedSchedule_validate :: "scenario \<Rightarrow> (validated_schedule, harness_error) outcome" where
  "ValidatedSchedule_validate sc =
     (case validate_steps {} 0 (steps sc) of
        Ok u \<Rightarrow> Ok \<lparr>vs_scenario = sc\<rparr>
      | Err e \<Rightarrow> Err e
      | Panic m \<Rightarrow> Panic m)"

definition ValidatedSchedule_steps :: "validated_schedule \<Rightarrow> scenario_step list" where
  "ValidatedSchedule_steps vs = steps (vs_scenario vs)"

definition ValidatedSchedule_name :: "validated_schedule \<Rightarrow> string" where
  "ValidatedSchedule_name vs = name (vs_scenario vs)"

definition ValidatedSchedule_seed :: "validated_schedule \<Rightarrow> u64" where
  "ValidatedSchedule_seed vs = seed (vs_scenario vs)"

section \<open>Specification\<close>

text \<open>The actions a schedule performs on one fault, in order.\<close>

definition actions_of :: "string \<Rightarrow> scenario_step list \<Rightarrow> step_action list" where
  "actions_of f ss = map action (filter (\<lambda>s. fault_id s = f) ss)"

fun alternates :: "bool \<Rightarrow> step_action list \<Rightarrow> bool" where
  "alternates armed [] = True"
| "alternates armed (a # as) = (a = (if armed then Disarm else Arm) \<and> alternates (\<not> armed) as)"

definition time_sorted :: "scenario_step list \<Rightarrow> bool" where
  "time_sorted ss \<longleftrightarrow> sorted (map at_ns ss)"

definition well_formed_steps :: "scenario_step list \<Rightarrow> bool" where
  "well_formed_steps ss \<longleftrightarrow> time_sorted ss \<and> (\<forall>f. alternates False (actions_of f ss))"

text \<open>The faults a list of steps leaves armed.\<close>

fun apply_step :: "scenario_step \<Rightarrow> string set \<Rightarrow> string set" where
  "apply_step s A = (case action s of Arm \<Rightarrow> insert (fault_id s) A | Disarm \<Rightarrow> A - {fault_id s})"

definition armed_after :: "string set \<Rightarrow> scenario_step list \<Rightarrow> string set" where
  "armed_after A ss = fold apply_step ss A"

lemma armed_after_simps [simp]:
  "armed_after A [] = A"
  "armed_after A (s # ss) = armed_after (apply_step s A) ss"
  "armed_after A (ss @ ts) = armed_after (armed_after A ss) ts"
  by (simp_all add: armed_after_def)

lemma actions_of_simps [simp]:
  "actions_of f [] = []"
  "actions_of f (s # ss) = (if fault_id s = f then action s # actions_of f ss else actions_of f ss)"
  by (simp_all add: actions_of_def)

section \<open>The loop meets the specification\<close>

lemma validate_steps_no_panic [panic_free]: "validate_steps A t ss \<noteq> Panic m"
  by (induction ss arbitrary: A t) (auto split: step_action.splits)

lemma validate_steps_Ok_iff:
  "validate_steps A t ss = Ok () \<longleftrightarrow>
     sorted (t # map at_ns ss) \<and> (\<forall>f. alternates (f \<in> A) (actions_of f ss))"
proof (induction ss arbitrary: A t)
  case (Cons s ss)
  have alt: "alternates (f \<in> A) (actions_of f (s # ss))
      = alternates (f \<in> apply_step s A) (actions_of f ss)"
    if "action s = (if fault_id s \<in> A then Disarm else Arm)" for f
    using that by (cases "fault_id s = f") (auto split: if_splits)
  have noalt: "\<not> (\<forall>f. alternates (f \<in> A) (actions_of f (s # ss)))"
    if "action s \<noteq> (if fault_id s \<in> A then Disarm else Arm)"
    using that by (auto intro: exI [where x = "fault_id s"])
  have step: "validate_steps A t (s # ss) = Ok () \<longleftrightarrow>
      t \<le> at_ns s \<and> action s = (if fault_id s \<in> A then Disarm else Arm)
      \<and> validate_steps (apply_step s A) (at_ns s) ss = Ok ()"
    by (cases "action s") auto
  have srt: "sorted (t # map at_ns (s # ss)) \<longleftrightarrow> t \<le> at_ns s \<and> sorted (at_ns s # map at_ns ss)"
    by auto
  show ?case
  proof (cases "action s = (if fault_id s \<in> A then Disarm else Arm)")
    case True
    show ?thesis
      unfolding step srt alt [OF True] Cons.IH using True by blast
  next
    case False
    with noalt show ?thesis unfolding step by blast
  qed
qed simp

lemma validate_steps_append:
  assumes "validate_steps A t ss = Ok ()"
  shows "validate_steps A t (ss @ ts)
       = validate_steps (armed_after A ss) (last (t # map at_ns ss)) ts"
  using assms by (induction ss arbitrary: A t) (auto split: if_splits step_action.splits)

lemma validate_eq_Ok_iff:
  "ValidatedSchedule_validate sc = Ok vs \<longleftrightarrow> vs_scenario vs = sc \<and> well_formed_steps (steps sc)"
proof -
  have "validate_steps {} 0 (steps sc) = Ok () \<longleftrightarrow> well_formed_steps (steps sc)"
    by (auto simp: validate_steps_Ok_iff well_formed_steps_def time_sorted_def)
  moreover have "vs = \<lparr>vs_scenario = sc\<rparr> \<longleftrightarrow> vs_scenario vs = sc"
    by (cases vs) auto
  ultimately show ?thesis
    by (auto simp: ValidatedSchedule_validate_def split: outcome.splits)
qed

lemma validate_no_panic [panic_free]: "ValidatedSchedule_validate sc \<noteq> Panic m"
  by (auto simp: ValidatedSchedule_validate_def panic_free split: outcome.splits)

lemma validated_steps:
  "ValidatedSchedule_validate sc = Ok vs \<Longrightarrow>
     ValidatedSchedule_steps vs = steps sc \<and> well_formed_steps (steps sc)"
  by (simp add: validate_eq_Ok_iff ValidatedSchedule_steps_def)

text \<open>In a well-formed schedule a fault stays armed exactly when its last action is an arm.\<close>

lemma alternates_last:
  assumes "alternates b as" and "as \<noteq> []"
  shows "(odd (length as) = b) = (last as = Disarm)"
  using assms
  by (induction b as rule: alternates.induct) (auto split: if_splits)

lemma armed_after_last:
  "f \<in> armed_after A ss \<longleftrightarrow>
     (if actions_of f ss = [] then f \<in> A else last (actions_of f ss) = Arm)"
proof (induction ss arbitrary: A)
  case (Cons s ss)
  then show ?case
    by (cases "action s") auto
qed simp

lemma well_formed_take: "well_formed_steps ss \<Longrightarrow> well_formed_steps (take k ss)"
proof -
  assume wf: "well_formed_steps ss"
  have app: "alternates b (xs @ ys) \<Longrightarrow> alternates b xs" for b xs ys
    by (induction xs arbitrary: b) auto
  have "actions_of f ss = actions_of f (take k ss) @ actions_of f (drop k ss)" for f
    by (simp add: actions_of_def flip: filter_append map_append)
  then have "alternates False (actions_of f (take k ss))" for f
    using wf app by (metis well_formed_steps_def)
  moreover have "sorted (take k (map at_ns ss))"
    using wf by (auto simp: well_formed_steps_def time_sorted_def intro: sorted_wrt_take)
  then have "time_sorted (take k ss)"
    by (simp add: time_sorted_def take_map)
  ultimately show ?thesis by (simp add: well_formed_steps_def)
qed

section \<open>Properties\<close>

lemma first_offender:
  assumes "ValidatedSchedule_validate sc = Err e"
  shows "\<exists>k < length (steps sc).
           well_formed_steps (take k (steps sc)) \<and> \<not> well_formed_steps (take (Suc k) (steps sc))
         \<and> Err e = validate_steps (armed_after {} (take k (steps sc)))
                     (last (0 # map at_ns (take k (steps sc)))) [steps sc ! k]"
proof -
  let ?v = "validate_steps {} 0"
  let ?ss = "steps sc"
  have ok: "?v ts = Ok () \<longleftrightarrow> well_formed_steps ts" for ts
    by (auto simp: validate_steps_Ok_iff well_formed_steps_def time_sorted_def)
  have err: "?v ?ss = Err e"
    using assms by (auto simp: ValidatedSchedule_validate_def split: outcome.splits)
  define k where "k = (LEAST j. \<not> well_formed_steps (take (Suc j) ?ss))"
  have "\<not> well_formed_steps ?ss" using err ok [of ?ss] by simp
  moreover have "well_formed_steps (take 0 ?ss)" by (simp add: well_formed_steps_def time_sorted_def)
  ultimately have ex: "\<exists>j. \<not> well_formed_steps (take (Suc j) ?ss)"
    by (metis le_SucI order_refl take_all)
  then have bad: "\<not> well_formed_steps (take (Suc k) ?ss)"
    unfolding k_def by (rule LeastI_ex)
  have good: "well_formed_steps (take k ?ss)"
  proof (cases k)
    case 0
    then show ?thesis by (simp add: well_formed_steps_def time_sorted_def)
  next
    case (Suc j)
    then show ?thesis using not_less_Least [of j "\<lambda>j. \<not> well_formed_steps (take (Suc j) ?ss)"]
      by (simp add: k_def)
  qed
  have lt: "k < length ?ss"
    using bad good by (metis le_SucI not_le take_all)
  have split: "take (Suc k) ?ss = take k ?ss @ [?ss ! k]"
    using lt by (simp add: take_Suc_conv_app_nth)
  let ?r = "validate_steps (armed_after {} (take k ?ss)) (last (0 # map at_ns (take k ?ss)))"
  have one: "?v (take (Suc k) ?ss) = ?r [?ss ! k]"
    unfolding split by (rule validate_steps_append) (simp add: ok good)
  have all: "?v ?ss = ?r (?ss ! k # drop (Suc k) ?ss)"
    using validate_steps_append [of "{}" 0 "take k ?ss" "drop k ?ss"] good lt
    by (simp add: ok Cons_nth_drop_Suc)
  have "?r [?ss ! k] \<noteq> Ok ()"
    using bad one ok by metis
  then have "?r (?ss ! k # drop (Suc k) ?ss) = ?r [?ss ! k]"
    by (auto split: step_action.splits)
  with err all lt good bad show ?thesis by metis
qed

text \<open>
  C8: \<^verbatim>\<open>validate\<close> accepts exactly the scenarios whose steps are in time order and in which each
  fault's actions alternate, starting with an arm, and it keeps the scenario as it is. When it refuses,
  it refuses at the first offending step: the steps before it form a schedule it would accept, the
  steps up to and including it do not, and the error is the one message that step earns.
\<close>

theorem validate_exact:
  "(ValidatedSchedule_validate sc = Ok vs \<longleftrightarrow>
     vs = \<lparr>vs_scenario = sc\<rparr> \<and> sorted (map at_ns (steps sc))
     \<and> (\<forall>f. alternates False (actions_of f (steps sc))))
   \<and> (ValidatedSchedule_validate sc = Err e \<longrightarrow>
     (\<exists>k < length (steps sc).
        well_formed_steps (take k (steps sc)) \<and> \<not> well_formed_steps (take (Suc k) (steps sc))
      \<and> Err e = validate_steps (armed_after {} (take k (steps sc)))
                  (last (0 # map at_ns (take k (steps sc)))) [steps sc ! k]))"
proof
  show "ValidatedSchedule_validate sc = Ok vs \<longleftrightarrow>
     vs = \<lparr>vs_scenario = sc\<rparr> \<and> sorted (map at_ns (steps sc))
     \<and> (\<forall>f. alternates False (actions_of f (steps sc)))"
    by (cases vs) (auto simp: validate_eq_Ok_iff well_formed_steps_def time_sorted_def)
qed (blast dest: first_offender)

theorem validate_exact_witness:
  "let sc = \<lparr>name = ''test'', seed = 1,
            steps = [\<lparr>at_ns = 1000, fault_id = ''pkt-loss'', action = Arm\<rparr>,
                     \<lparr>at_ns = 500, fault_id = ''pkt-loss'', action = Disarm\<rparr>]\<rparr>
   in (\<exists>e. ValidatedSchedule_validate sc = Err e) \<and>
      (\<exists>k < length (steps sc). \<not> well_formed_steps (take (Suc k) (steps sc)))"
proof -
  let ?sc = "\<lparr>name = ''test'', seed = 1,
            steps = [\<lparr>at_ns = 1000, fault_id = ''pkt-loss'', action = Arm\<rparr>,
                     \<lparr>at_ns = 500, fault_id = ''pkt-loss'', action = Disarm\<rparr>]\<rparr> :: scenario"
  obtain e where e: "ValidatedSchedule_validate ?sc = Err e"
    by (simp add: ValidatedSchedule_validate_def)
  from validate_exact [of ?sc "\<lparr>vs_scenario = ?sc\<rparr>" e] e show ?thesis
    unfolding Let_def by blast
qed

end
