(* ===== verification/Scheduler.thy ===== *)
theory Scheduler
  imports Schedule
begin

text \<open>
  \<^verbatim>\<open>replay/src/scheduler.rs\<close>: a cursor over a validated schedule and a virtual clock. The
  abstract specification of \<^verbatim>\<open>advance\<close> is a filter: of the steps that have not fired, those whose
  time has come, in schedule order. The cursor loop implements it because validated steps are
  sorted.
\<close>

section \<open>Definitions\<close>

record scheduler =
  sched_schedule :: validated_schedule
  sched_clock :: virtual_clock
  cursor :: nat

definition Scheduler_new :: "validated_schedule \<Rightarrow> u64 \<Rightarrow> scheduler" where
  "Scheduler_new vs start_ns =
     \<lparr>sched_schedule = vs, sched_clock = VirtualClock_new start_ns, cursor = 0\<rparr>"

definition Scheduler_now_ns :: "scheduler \<Rightarrow> u64" where
  "Scheduler_now_ns s = VirtualClock_now_ns (sched_clock s)"

text \<open>The \<^verbatim>\<open>while\<close> loop of \<^verbatim>\<open>advance\<close>: how far the cursor moves.\<close>

function advance_cursor :: "scenario_step list \<Rightarrow> u64 \<Rightarrow> nat \<Rightarrow> nat" where
  "advance_cursor ss now c =
     (if c < length ss \<and> at_ns (ss ! c) \<le> now then advance_cursor ss now (Suc c) else c)"
  by pat_completeness auto
termination
  by (relation "measure (\<lambda>(ss, now, c). length ss - c)") auto

declare advance_cursor.simps [simp del]

definition Scheduler_advance :: "scheduler \<Rightarrow> u64 \<Rightarrow> scenario_step list \<times> scheduler" where
  "Scheduler_advance s delta_ns =
     (let clk = VirtualClock_advance (sched_clock s) delta_ns;
          now = VirtualClock_now_ns clk;
          start = cursor s;
          ss = ValidatedSchedule_steps (sched_schedule s);
          c = advance_cursor ss now start
      in (take (c - start) (drop start ss), s\<lparr>sched_clock := clk, cursor := c\<rparr>))"

definition Scheduler_is_finished :: "scheduler \<Rightarrow> bool" where
  "Scheduler_is_finished s \<longleftrightarrow> length (ValidatedSchedule_steps (sched_schedule s)) \<le> cursor s"

section \<open>The cursor loop\<close>

text \<open>The steps that have not fired yet.\<close>

definition pending :: "scheduler \<Rightarrow> scenario_step list" where
  "pending s = drop (cursor s) (ValidatedSchedule_steps (sched_schedule s))"

lemma advance_cursor_takeWhile:
  "c \<le> length ss \<Longrightarrow>
     advance_cursor ss now c = c + length (takeWhile (\<lambda>s. at_ns s \<le> now) (drop c ss))"
proof (induction ss now c rule: advance_cursor.induct)
  case (1 ss now c)
  show ?case
  proof (cases "c < length ss \<and> at_ns (ss ! c) \<le> now")
    case True
    with 1 show ?thesis
      by (simp add: advance_cursor.simps [of ss now c] Cons_nth_drop_Suc [symmetric])
  next
    case False
    then have "advance_cursor ss now c = c"
      by (auto simp: advance_cursor.simps [of ss now c])
    moreover have "takeWhile (\<lambda>s. at_ns s \<le> now) (drop c ss) = []"
      using False by (cases "c < length ss") (auto simp: Cons_nth_drop_Suc [symmetric])
    ultimately show ?thesis by simp
  qed
qed

definition sched_inv :: "scheduler \<Rightarrow> bool" where
  "sched_inv s \<longleftrightarrow> cursor s \<le> length (ValidatedSchedule_steps (sched_schedule s))"

lemma sched_inv_new [simp]: "sched_inv (Scheduler_new vs t)"
  by (simp add: sched_inv_def Scheduler_new_def)

lemma takeWhile_sorted_filter:
  "sorted (map at_ns ss) \<Longrightarrow>
     takeWhile (\<lambda>s. at_ns s \<le> now) ss = filter (\<lambda>s. at_ns s \<le> now) ss
   \<and> dropWhile (\<lambda>s. at_ns s \<le> now) ss = filter (\<lambda>s. now < at_ns s) ss"
proof (induction ss)
  case (Cons s ss)
  show ?case
  proof (cases "at_ns s \<le> now")
    case True
    with Cons show ?thesis by auto
  next
    case False
    then have "\<forall>x \<in> set ss. now < at_ns x"
      using Cons.prems by auto
    then have "filter (\<lambda>s. at_ns s \<le> now) ss = []" and "filter (\<lambda>s. now < at_ns s) ss = ss"
      by (auto simp: filter_empty_conv filter_id_conv)
    with False show ?thesis by auto
  qed
qed simp

text \<open>What one call does, in terms of the pending steps; no assumption on their order.\<close>

lemma Scheduler_advance_pending:
  assumes "sched_inv s" and "Scheduler_advance s d = (due, s')"
  shows "due = takeWhile (\<lambda>x. at_ns x \<le> Scheduler_now_ns s + d) (pending s)"
    and "pending s' = dropWhile (\<lambda>x. at_ns x \<le> Scheduler_now_ns s + d) (pending s)"
    and "Scheduler_now_ns s' = Scheduler_now_ns s + d"
    and "sched_schedule s' = sched_schedule s"
    and "sched_inv s'"
proof -
  let ?ss = "ValidatedSchedule_steps (sched_schedule s)"
  let ?now = "Scheduler_now_ns s + d"
  let ?P = "\<lambda>x. at_ns x \<le> ?now"
  let ?n = "length (takeWhile ?P (drop (cursor s) ?ss))"
  have now: "VirtualClock_now_ns (VirtualClock_advance (sched_clock s) d) = ?now"
    by (simp add: vclock.now_advance Scheduler_now_ns_def)
  have c: "advance_cursor ?ss ?now (cursor s) = cursor s + ?n"
    using assms(1) by (simp add: sched_inv_def advance_cursor_takeWhile)
  have d: "due = take ?n (pending s)"
    and s': "s' = s\<lparr>sched_clock := VirtualClock_advance (sched_clock s) d, cursor := cursor s + ?n\<rparr>"
    using assms(2) by (auto simp: Scheduler_advance_def Let_def now c pending_def)
  show "due = takeWhile ?P (pending s)"
    unfolding d by (metis pending_def takeWhile_eq_take)
  show "pending s' = dropWhile ?P (pending s)"
    by (simp add: s' pending_def dropWhile_eq_drop add.commute)
  show "Scheduler_now_ns s' = ?now"
    by (simp add: s' Scheduler_now_ns_def now flip: Scheduler_now_ns_def)
      (simp add: Scheduler_now_ns_def now)
  show "sched_schedule s' = sched_schedule s" by (simp add: s')
  have "?n \<le> length (drop (cursor s) ?ss)" by (rule length_takeWhile_le)
  then show "sched_inv s'"
    using assms(1) by (simp add: s' sched_inv_def)
qed

lemma is_finished_iff_pending: "Scheduler_is_finished s \<longleftrightarrow> pending s = []"
  by (simp add: Scheduler_is_finished_def pending_def)

lemma pending_new [simp]: "pending (Scheduler_new vs t) = ValidatedSchedule_steps vs"
  by (simp add: pending_def Scheduler_new_def)

lemma now_new [simp]: "Scheduler_now_ns (Scheduler_new vs t) = t"
  by (simp add: Scheduler_now_ns_def Scheduler_new_def)

lemma sched_schedule_new [simp]: "sched_schedule (Scheduler_new vs t) = vs"
  by (simp add: Scheduler_new_def)

lemma Scheduler_advance_split:
  assumes "sched_inv s" and "Scheduler_advance s d = (due, s')"
  shows "pending s = due @ pending s'"
  using Scheduler_advance_pending(1,2) [OF assms] by (metis takeWhile_dropWhile_id)

section \<open>A sequence of calls\<close>

text \<open>The steps a scheduler hands out over a sequence of calls.\<close>

fun advance_all :: "scheduler \<Rightarrow> u64 list \<Rightarrow> scenario_step list \<times> scheduler" where
  "advance_all s [] = ([], s)"
| "advance_all s (d # ds) =
     (case Scheduler_advance s d of (due, s') \<Rightarrow>
        case advance_all s' ds of (rest, s'') \<Rightarrow> (due @ rest, s''))"

lemma advance_all_split:
  assumes "sched_inv s" and "advance_all s ds = (fired, s')"
  shows "pending s = fired @ pending s'"
  using assms
proof (induction ds arbitrary: s fired)
  case (Cons d ds)
  obtain due s1 where a: "Scheduler_advance s d = (due, s1)" by fastforce
  obtain rest where r: "advance_all s1 ds = (rest, s')" and f: "fired = due @ rest"
    using Cons.prems(2) a by (auto split: prod.splits)
  have "sched_inv s1" using Cons.prems(1) a by (rule Scheduler_advance_pending(5))
  then have "pending s1 = rest @ pending s'" using r by (rule Cons.IH)
  with Scheduler_advance_split [OF Cons.prems(1) a] f show ?case by simp
qed simp

text \<open>On a validated schedule one call returns exactly the steps that have not fired and whose time has
  come, whatever the clock said before, and leaves pending those still in the future.\<close>

lemma advance_fires_exactly_due:
  assumes "ValidatedSchedule_validate sc = Ok (sched_schedule s)"
    and "cursor s \<le> length (steps sc)"
    and "Scheduler_advance s d = (due, s')"
  shows "due = filter (\<lambda>x. at_ns x \<le> Scheduler_now_ns s + d) (drop (cursor s) (steps sc))
       \<and> drop (cursor s') (steps sc)
           = filter (\<lambda>x. Scheduler_now_ns s + d < at_ns x) (drop (cursor s) (steps sc))
       \<and> Scheduler_now_ns s' = Scheduler_now_ns s + d"
proof -
  have st: "ValidatedSchedule_steps (sched_schedule s) = steps sc"
    and "sorted (map at_ns (steps sc))"
    using validated_steps [OF assms(1)] by (auto simp: well_formed_steps_def time_sorted_def)
  then have "sorted (map at_ns (pending s))"
    by (simp add: pending_def drop_map [symmetric] sorted_wrt_drop)
  moreover have inv: "sched_inv s" using assms(2) st by (simp add: sched_inv_def)
  ultimately show ?thesis
    using Scheduler_advance_pending [OF inv assms(3)] takeWhile_sorted_filter
    by (simp add: pending_def st)
qed

text \<open>Two calls in a row hand out what one call over the whole time would, as long as the clock does not
  wrap.\<close>

lemma takeWhile_twice:
  assumes "n \<le> (m :: u64)"
  shows "takeWhile (\<lambda>x. at_ns x \<le> n) xs @ takeWhile (\<lambda>x. at_ns x \<le> m) (dropWhile (\<lambda>x. at_ns x \<le> n) xs)
       = takeWhile (\<lambda>x. at_ns x \<le> m) xs"
  using assms by (induction xs) (auto intro: order.trans)

lemma advance_all_now:
  assumes "sched_inv s" and "advance_all s ds = (fired, s')"
  shows "Scheduler_now_ns s' = Scheduler_now_ns s + sum_list ds"
  using assms
proof (induction ds arbitrary: s fired)
  case (Cons d ds)
  obtain due s1 where a: "Scheduler_advance s d = (due, s1)" by fastforce
  note round = Scheduler_advance_pending [OF Cons.prems(1) a]
  obtain rest where "advance_all s1 ds = (rest, s')" using Cons.prems(2) a by (auto split: prod.splits)
  from Cons.IH [OF round(5) this] show ?case by (simp add: round(3) add.assoc)
qed simp

lemma unat_sum_list: "unat (sum_list (ds :: u64 list)) \<le> sum_list (map unat ds)"
proof (induction ds)
  case (Cons d ds)
  have "unat (d + sum_list ds) \<le> unat d + unat (sum_list ds)"
    unfolding unat_word_ariths by (rule mod_less_eq_dividend)
  with Cons show ?case by simp
qed simp

lemma advance_all_due:
  assumes "sched_inv s" and "advance_all s ds = (fired, s')" and "ds \<noteq> []"
    and "unat (Scheduler_now_ns s) + sum_list (map unat ds) < 2 ^ 64"
  shows "fired = takeWhile (\<lambda>x. at_ns x \<le> Scheduler_now_ns s + sum_list ds) (pending s)"
  using assms
proof (induction ds arbitrary: s fired)
  case (Cons d ds)
  obtain due s1 where a: "Scheduler_advance s d = (due, s1)" by fastforce
  note round = Scheduler_advance_pending [OF Cons.prems(1) a]
  obtain rest where r: "advance_all s1 ds = (rest, s')" and f: "fired = due @ rest"
    using Cons.prems(2) a by (auto split: prod.splits)
  have now: "unat (Scheduler_now_ns s1) = unat (Scheduler_now_ns s) + unat d"
    unfolding round(3) using Cons.prems(4) by (intro unat_add_no_wrap) simp
  show ?case
  proof (cases "ds = []")
    case True
    with r f round(1) show ?thesis by simp
  next
    case False
    have bound: "unat (Scheduler_now_ns s1) + sum_list (map unat ds) < 2 ^ 64"
      using Cons.prems(4) now by simp
    from unat_sum_list [of ds] bound have "unat (Scheduler_now_ns s1 + sum_list ds) = unat (Scheduler_now_ns s1) + unat (sum_list ds)"
      by (intro unat_add_no_wrap) simp
    then have "Scheduler_now_ns s1 \<le> Scheduler_now_ns s1 + sum_list ds" by (simp add: word_le_nat_alt)
    from takeWhile_twice [OF this, of "pending s"] Cons.IH [OF round(5) r False bound] f round(1-3)
    show ?thesis by (simp add: add.assoc)
  qed
qed simp

section \<open>Properties\<close>

text \<open>
  C25: however the caller chops up time, every step fires exactly once, in schedule order and not before
  its time. What a sequence of advances hands out, followed by what is still pending, is the schedule;
  the scheduler is finished exactly when everything was handed out; and after at least one advance,
  with a clock that has not wrapped, exactly the steps whose time has come have fired.
\<close>

theorem advance_chunks_exact:
  assumes "ValidatedSchedule_validate sc = Ok vs" and "advance_all (Scheduler_new vs start) ds = (fired, s')"
  shows "fired @ pending s' = steps sc \<and> (Scheduler_is_finished s' \<longleftrightarrow> fired = steps sc)
       \<and> Scheduler_now_ns s' = start + sum_list ds
       \<and> (ds \<noteq> [] \<longrightarrow> unat start + sum_list (map unat ds) < 2 ^ 64 \<longrightarrow>
            fired = filter (\<lambda>x. at_ns x \<le> start + sum_list ds) (steps sc))"
proof -
  have st: "ValidatedSchedule_steps vs = steps sc" and sorted: "sorted (map at_ns (steps sc))"
    using validated_steps [OF assms(1)] by (auto simp: well_formed_steps_def time_sorted_def)
  note split = advance_all_split [OF sched_inv_new assms(2)]
  from advance_all_due [OF sched_inv_new assms(2)] advance_all_now [OF sched_inv_new assms(2)] split
    takeWhile_sorted_filter [OF sorted]
  show ?thesis by (auto simp: st is_finished_iff_pending)
qed

text \<open>The chunks of the replay crate's determinism test, on a schedule of two steps.\<close>

theorem advance_chunks_exact_witness:
  "let sc = \<lparr>name = ''test'', seed = 1,
             steps = [\<lparr>at_ns = 1000, fault_id = ''a'', action = Arm\<rparr>,
                      \<lparr>at_ns = 5000, fault_id = ''a'', action = Disarm\<rparr>]\<rparr>
   in fst (advance_all (Scheduler_new \<lparr>vs_scenario = sc\<rparr> 0) [300, 900, 1400]) = take 1 (steps sc)"
proof -
  let ?sc = "\<lparr>name = ''test'', seed = 1,
             steps = [\<lparr>at_ns = 1000, fault_id = ''a'', action = Arm\<rparr>,
                      \<lparr>at_ns = 5000, fault_id = ''a'', action = Disarm\<rparr>]\<rparr> :: scenario"
  have v: "ValidatedSchedule_validate ?sc = Ok \<lparr>vs_scenario = ?sc\<rparr>"
    by (simp add: ValidatedSchedule_validate_def)
  from advance_chunks_exact [OF v prod.collapse [symmetric], of 0 "[300, 900, 1400]"] show ?thesis by simp
qed

end
