(* ===== verification/Trace_Log.thy ===== *)
theory Trace_Log
  imports Core_Types
begin

text \<open>
  \<^verbatim>\<open>replay/src/trace.rs\<close>: the record of a run, its comparison, and saving and loading it. The
  JSON codec (\<^verbatim>\<open>serde_json\<close>) and the file system are not part of the repository; they are the
  fields of the parameter \<open>trace_env\<close>, and the two facts used of them are the named hypotheses
  \<open>json_round_trips\<close> and \<open>read_after_write\<close>.
\<close>

section \<open>Definitions\<close>

record trace_event =
  ev_step :: scenario_step
  wall_ns :: u64

record trace =
  scenario_name :: string
  trace_seed :: u64
  events :: "trace_event list"

definition Trace_new :: "string \<Rightarrow> u64 \<Rightarrow> trace" where
  "Trace_new nm sd = \<lparr>scenario_name = nm, trace_seed = sd, events = []\<rparr>"

definition Trace_record :: "trace \<Rightarrow> scenario_step \<Rightarrow> u64 \<Rightarrow> trace" where
  "Trace_record t step wall = t\<lparr>events := events t @ [\<lparr>ev_step = step, wall_ns = wall\<rparr>]\<rparr>"

definition Trace_matches_schedule :: "trace \<Rightarrow> trace \<Rightarrow> bool" where
  "Trace_matches_schedule t u \<longleftrightarrow>
     trace_seed t = trace_seed u \<and> map ev_step (events t) = map ev_step (events u)"

text \<open>
  The codec returns a text or the rendered error; \<open>te_create\<close> and \<open>te_write_all\<close> return the
  rendered error, if any, and the file system afterwards.
\<close>

record 'w trace_env =
  te_to_json :: "trace \<Rightarrow> string + string"
  te_from_json :: "string \<Rightarrow> string + trace"
  te_create :: "string \<Rightarrow> 'w \<Rightarrow> string option \<times> 'w"
  te_write_all :: "string \<Rightarrow> string \<Rightarrow> 'w \<Rightarrow> string option \<times> 'w"
  te_read :: "string \<Rightarrow> 'w \<Rightarrow> string + string"

definition Trace_save ::
  "'w trace_env \<Rightarrow> trace \<Rightarrow> string \<Rightarrow> 'w \<Rightarrow> (unit, harness_error) outcome \<times> 'w" where
  "Trace_save env t path w =
     (case te_to_json env t of
        Inl e \<Rightarrow> (Err (InvalidScenario e), w)
      | Inr json \<Rightarrow>
          (case te_create env path w of
             (Some e, w1) \<Rightarrow> (Err (Io e), w1)
           | (None, w1) \<Rightarrow>
               (case te_write_all env path json w1 of
                  (Some e, w2) \<Rightarrow> (Err (Io e), w2)
                | (None, w2) \<Rightarrow> (Ok (), w2))))"

definition Trace_load :: "'w trace_env \<Rightarrow> string \<Rightarrow> 'w \<Rightarrow> (trace, harness_error) outcome" where
  "Trace_load env path w =
     (case te_read env path w of
        Inl e \<Rightarrow> Err (Io e)
      | Inr bytes \<Rightarrow>
          (case te_from_json env bytes of
             Inl e \<Rightarrow> Err (InvalidScenario e)
           | Inr t \<Rightarrow> Ok t))"

text \<open>What the codec and the file system are documented to do.\<close>

definition json_round_trips :: "'w trace_env \<Rightarrow> bool" where
  "json_round_trips env \<longleftrightarrow> (\<forall>t j. te_to_json env t = Inr j \<longrightarrow> te_from_json env j = Inr t)"

definition read_after_write :: "'w trace_env \<Rightarrow> bool" where
  "read_after_write env \<longleftrightarrow>
     (\<forall>path content w w1 w2. te_create env path w = (None, w1) \<longrightarrow>
        te_write_all env path content w1 = (None, w2) \<longrightarrow> te_read env path w2 = Inr content)"

section \<open>Lemmas\<close>

lemma Trace_new_simps [simp]:
  "events (Trace_new nm sd) = []" "trace_seed (Trace_new nm sd) = sd"
  "scenario_name (Trace_new nm sd) = nm"
  by (simp_all add: Trace_new_def)

lemma Trace_record_simps [simp]:
  "events (Trace_record t s n) = events t @ [\<lparr>ev_step = s, wall_ns = n\<rparr>]"
  "trace_seed (Trace_record t s n) = trace_seed t"
  "scenario_name (Trace_record t s n) = scenario_name t"
  by (simp_all add: Trace_record_def)

lemma Trace_matches_refl [simp]: "Trace_matches_schedule t t"
  by (simp add: Trace_matches_schedule_def)

lemma Trace_matches_sym: "Trace_matches_schedule t u \<Longrightarrow> Trace_matches_schedule u t"
  by (simp add: Trace_matches_schedule_def)

lemma Trace_matches_trans:
  "Trace_matches_schedule t u \<Longrightarrow> Trace_matches_schedule u v \<Longrightarrow> Trace_matches_schedule t v"
  by (simp add: Trace_matches_schedule_def)

lemma save_load:
  assumes "json_round_trips env" and "read_after_write env"
    and "Trace_save env t path w = (Ok u, w')"
  shows "Trace_load env path w' = Ok t"
proof -
  obtain j w1 where j: "te_to_json env t = Inr j" and c: "te_create env path w = (None, w1)"
    and wr: "te_write_all env path j w1 = (None, w')"
    using assms(3) by (auto simp: Trace_save_def split: sum.splits prod.splits option.splits)
  have "te_read env path w' = Inr j"
    using assms(2) c wr by (auto simp: read_after_write_def)
  moreover have "te_from_json env j = Inr t"
    using assms(1) j by (auto simp: json_round_trips_def)
  ultimately show ?thesis by (simp add: Trace_load_def)
qed

text \<open>Two traces match exactly when they differ at most in wall times and in the scenario name.\<close>

lemma matches_schedule_iff:
  "Trace_matches_schedule t u \<longleftrightarrow>
     trace_seed t = trace_seed u \<and> length (events t) = length (events u)
     \<and> (\<forall>i < length (events t). ev_step (events t ! i) = ev_step (events u ! i))"
  by (auto simp: Trace_matches_schedule_def list_eq_iff_nth_eq)

end
