(* ===== verification/Runner.thy ===== *)
theory Runner
  imports Scheduler Trace_Log "HOL-Library.AList"
begin

text \<open>
  \<^verbatim>\<open>replay/src/runner.rs\<close>: the loop that drives a validated schedule against a registry of
  injectors. The registry is a \<^verbatim>\<open>HashMap\<close>, here an association list with distinct keys whose
  order is the map's iteration order (only \<^verbatim>\<open>teardown\<close> iterates). \<^verbatim>\<open>run_inner\<close> is a
  \<^verbatim>\<open>while\<close> loop that need not end, so it is a partial function: \<open>None\<close> is ``does not return''.
  What it does to the injectors is proved once, inside the locale \<open>fault_injector\<close>, for every
  implementation of the trait.
\<close>

section \<open>Definitions\<close>

type_synonym 'i registry = "(string \<times> 'i) list"

record 'i runner =
  rn_schedule :: validated_schedule
  rn_injectors :: "'i registry"
  rn_ctx :: fault_context

fun check_registered :: "scenario_step list \<Rightarrow> 'i registry \<Rightarrow> (unit, harness_error) outcome" where
  "check_registered [] injectors = Ok ()"
| "check_registered (step # rest) injectors =
     (if map_of injectors (fault_id step) = None
      then Err (InvalidScenario (''step references fault_id '' @ fault_id step
             @ '' which has no registered injector''))
      else check_registered rest injectors)"

definition Runner_new ::
  "validated_schedule \<Rightarrow> 'i registry \<Rightarrow> fault_context \<Rightarrow> ('i runner, harness_error) outcome" where
  "Runner_new vs injectors ctx =
     (case check_registered (ValidatedSchedule_steps vs) injectors of
        Ok u \<Rightarrow> Ok \<lparr>rn_schedule = vs, rn_injectors = injectors, rn_ctx = ctx\<rparr>
      | Err e \<Rightarrow> Err e
      | Panic m \<Rightarrow> Panic m)"

text \<open>The call a step makes on its injector, and the \<^verbatim>\<open>for step in due\<close> loop of
  \<^verbatim>\<open>run_inner\<close>.\<close>

definition step_call :: "('i, 'w) injector_ops \<Rightarrow> fault_context \<Rightarrow> step_action \<Rightarrow> ('i, 'w) fault_call" where
  "step_call ops ctx a i w = (case a of Arm \<Rightarrow> op_arm ops ctx i w | Disarm \<Rightarrow> op_disarm ops i w)"

fun fire_due ::
  "('i, 'w) injector_ops \<Rightarrow> fault_context \<Rightarrow> u64 \<Rightarrow> scenario_step list \<Rightarrow> 'i registry \<Rightarrow> trace \<Rightarrow> 'w
     \<Rightarrow> (trace, harness_error) outcome \<times> 'i registry \<times> 'w" where
  "fire_due ops ctx now [] injs tr w = (Ok tr, injs, w)"
| "fire_due ops ctx now (step # due) injs tr w =
     (case map_of injs (fault_id step) of
        None \<Rightarrow> (Panic ''fault_id existence already checked in Runner::new'', injs, w)
      | Some i \<Rightarrow>
          (case step_call ops ctx (action step) i w of
             (r, i', w') \<Rightarrow>
               let injs' = AList.update (fault_id step) i' injs
               in case r of
                    Ok u \<Rightarrow> fire_due ops ctx now due injs' (Trace_record tr step now) w'
                  | Err e \<Rightarrow> (Err e, injs', w')
                  | Panic m \<Rightarrow> (Panic m, injs', w')))"

text \<open>\<open>sleep\<close> is what the operating system does while the thread sleeps.\<close>

partial_function (option) run_loop ::
  "('i, 'w) injector_ops \<Rightarrow> (u64 \<Rightarrow> 'w \<Rightarrow> 'w) \<Rightarrow> fault_context \<Rightarrow> u64 \<Rightarrow> bool
     \<Rightarrow> scheduler \<Rightarrow> trace \<Rightarrow> 'i registry \<Rightarrow> 'w
     \<Rightarrow> ((trace, harness_error) outcome \<times> 'i registry \<times> 'w) option" where
  "run_loop ops sleep ctx tick_ns realtime s tr injs w =
     (if Scheduler_is_finished s then Some (Ok tr, injs, w)
      else let w1 = (if realtime then sleep tick_ns w else w)
           in case Scheduler_advance s tick_ns of
                (due, s') \<Rightarrow>
                  (case fire_due ops ctx (Scheduler_now_ns s') due injs tr w1 of
                     (r, injs', w') \<Rightarrow>
                       (case r of
                          Ok tr' \<Rightarrow> run_loop ops sleep ctx tick_ns realtime s' tr' injs' w'
                        | Err e \<Rightarrow> Some (Err e, injs', w')
                        | Panic m \<Rightarrow> Some (Panic m, injs', w'))))"

definition Runner_run_inner ::
  "('i, 'w) injector_ops \<Rightarrow> (u64 \<Rightarrow> 'w \<Rightarrow> 'w) \<Rightarrow> 'i runner \<Rightarrow> u64 \<Rightarrow> bool \<Rightarrow> 'w
     \<Rightarrow> ((trace, harness_error) outcome \<times> 'i runner \<times> 'w) option" where
  "Runner_run_inner ops sleep rn tick_ns realtime w =
     (case run_loop ops sleep (rn_ctx rn) tick_ns realtime
             (Scheduler_new (rn_schedule rn) 0)
             (Trace_new (ValidatedSchedule_name (rn_schedule rn)) (ValidatedSchedule_seed (rn_schedule rn)))
             (rn_injectors rn) w of
        None \<Rightarrow> None
      | Some (r, injs, w') \<Rightarrow> Some (r, rn\<lparr>rn_injectors := injs\<rparr>, w'))"

definition Runner_run where
  "Runner_run ops sleep rn tick_ns w = Runner_run_inner ops sleep rn tick_ns False w"

definition Runner_run_realtime where
  "Runner_run_realtime ops sleep rn tick_ns w = Runner_run_inner ops sleep rn tick_ns True w"

definition Runner_is_armed :: "('i, 'w) injector_ops \<Rightarrow> 'i runner \<Rightarrow> string \<Rightarrow> bool option" where
  "Runner_is_armed ops rn f = map_option (op_is_armed ops) (map_of (rn_injectors rn) f)"

text \<open>The loop of \<^verbatim>\<open>teardown\<close> over \<^verbatim>\<open>values_mut\<close>, with the first error so far. A panic of
  \<^verbatim>\<open>disarm\<close> would leave the loop.\<close>

fun teardown_loop ::
  "('i, 'w) injector_ops \<Rightarrow> 'i registry \<Rightarrow> harness_error option \<Rightarrow> 'w
     \<Rightarrow> (harness_error option, harness_error) outcome \<times> 'i registry \<times> 'w" where
  "teardown_loop ops [] first_err w = (Ok first_err, [], w)"
| "teardown_loop ops ((k, i) # rest) first_err w =
     (if op_is_armed ops i then
        (case op_disarm ops i w of
           (r, i', w1) \<Rightarrow>
             (case r of
                Panic m \<Rightarrow> (Panic m, (k, i') # rest, w1)
              | _ \<Rightarrow>
                  let first_err' = (case r of Err e \<Rightarrow> (if first_err = None then Some e else first_err)
                                            | _ \<Rightarrow> first_err)
                  in case teardown_loop ops rest first_err' w1 of
                       (out, rest', w2) \<Rightarrow> (out, (k, i') # rest', w2)))
      else case teardown_loop ops rest first_err w of
             (out, rest', w2) \<Rightarrow> (out, (k, i) # rest', w2))"

definition Runner_teardown ::
  "('i, 'w) injector_ops \<Rightarrow> 'i runner \<Rightarrow> 'w \<Rightarrow> (unit, harness_error) outcome \<times> 'i runner \<times> 'w" where
  "Runner_teardown ops rn w =
     (case teardown_loop ops (rn_injectors rn) None w of
        (out, injs, w') \<Rightarrow>
          ((case out of Ok None \<Rightarrow> Ok () | Ok (Some e) \<Rightarrow> Err e | Err e \<Rightarrow> Err e | Panic m \<Rightarrow> Panic m),
           rn\<lparr>rn_injectors := injs\<rparr>, w'))"

text \<open>\<^verbatim>\<open>impl Drop for Runner\<close>: the result of the teardown is ignored.\<close>

definition Runner_drop :: "('i, 'w) injector_ops \<Rightarrow> 'i runner \<Rightarrow> 'w \<Rightarrow> 'i runner \<times> 'w" where
  "Runner_drop ops rn w = snd (Runner_teardown ops rn w)"

text \<open>The ids that are armed in a registry.\<close>

definition armed_ids :: "('i, 'w) injector_ops \<Rightarrow> 'i registry \<Rightarrow> string set" where
  "armed_ids ops injs = {f. \<exists>i. map_of injs f = Some i \<and> op_is_armed ops i}"

text \<open>
  What a run that fails leaves armed: the first \<open>k\<close> steps took effect and the next one failed, which
  may have cleared its own fault but touched no other.
\<close>

definition stopped_at :: "string set \<Rightarrow> string set \<Rightarrow> scenario_step list \<Rightarrow> nat \<Rightarrow> bool" where
  "stopped_at armed A ss k \<longleftrightarrow> k < length ss \<and> armed \<subseteq> armed_after A (take k ss)
     \<and> armed_after A (take k ss) - {fault_id (ss ! k)} \<subseteq> armed"

text \<open>
  What one entry of the registry goes through in a teardown: an armed injector gets one
  \<^verbatim>\<open>disarm\<close>, which succeeds when the teardown is to be \<^verbatim>\<open>clean\<close>; any other is left as it is.
\<close>

definition torn_down :: "('i, 'w) injector_ops \<Rightarrow> bool \<Rightarrow> string \<times> 'i \<Rightarrow> string \<times> 'i \<Rightarrow> bool" where
  "torn_down ops clean = (\<lambda>(k, i) (k', i'). k' = k \<and>
     (if op_is_armed ops i
      then \<exists>w0 r w1. op_disarm ops i w0 = (r, i', w1) \<and> (clean \<longrightarrow> r = Ok ())
      else i' = i))"

text \<open>
  \<^verbatim>\<open>CountingInjector\<close>, the fake of the tests in \<^verbatim>\<open>runner.rs\<close>: the shared atomic counters
  are fields of the injector, since the tests read them only after the run.
\<close>

record counting_injector =
  ci_id :: string
  ci_armed :: bool
  arm_calls :: nat
  disarm_calls :: nat

definition CountingInjector_arm ::
  "fault_context \<Rightarrow> counting_injector \<Rightarrow> 'w \<Rightarrow> (unit, harness_error) outcome \<times> counting_injector \<times> 'w" where
  "CountingInjector_arm ctx i w = (Ok (), i\<lparr>arm_calls := arm_calls i + 1, ci_armed := True\<rparr>, w)"

definition CountingInjector_disarm ::
  "counting_injector \<Rightarrow> 'w \<Rightarrow> (unit, harness_error) outcome \<times> counting_injector \<times> 'w" where
  "CountingInjector_disarm i w = (Ok (), i\<lparr>disarm_calls := disarm_calls i + 1, ci_armed := False\<rparr>, w)"

definition counting_ops :: "(counting_injector, 'w) injector_ops" where
  "counting_ops = \<lparr>op_id = ci_id, op_arm = CountingInjector_arm,
                   op_disarm = CountingInjector_disarm, op_is_armed = ci_armed\<rparr>"

text \<open>An implementation of the trait whose calls always succeed.\<close>

definition never_fails :: "('i, 'w) injector_ops \<Rightarrow> bool" where
  "never_fails ops \<longleftrightarrow>
     (\<forall>c i w. fst (op_arm ops c i w) = Ok ()) \<and> (\<forall>i w. fst (op_disarm ops i w) = Ok ())"

text \<open>The schedule and the registry of the runner's first end-to-end test.\<close>

definition test_schedule :: validated_schedule where
  "test_schedule = \<lparr>vs_scenario = \<lparr>name = ''test'', seed = 1,
     steps = [\<lparr>at_ns = 1000, fault_id = ''pkt-loss'', action = Arm\<rparr>,
              \<lparr>at_ns = 5000, fault_id = ''pkt-loss'', action = Disarm\<rparr>]\<rparr>\<rparr>"

definition test_injectors :: "counting_injector registry" where
  "test_injectors = [(''pkt-loss'', \<lparr>ci_id = ''pkt-loss'', ci_armed = False, arm_calls = 0, disarm_calls = 0\<rparr>)]"

definition test_ctx :: fault_context where
  "test_ctx = \<lparr>ctx_clock = SystemClock, ctx_seed = 1\<rparr>"

section \<open>Registration\<close>

lemma check_registered_Ok_iff:
  "check_registered ss injs = Ok () \<longleftrightarrow> fault_id ` set ss \<subseteq> dom (map_of injs)"
  by (induction ss) auto

lemma check_registered_no_panic [panic_free]: "check_registered ss injs \<noteq> Panic m"
  by (induction ss) auto

lemma Runner_new_Ok:
  "Runner_new vs injs ctx = Ok rn \<longleftrightarrow>
     fault_id ` set (ValidatedSchedule_steps vs) \<subseteq> dom (map_of injs)
     \<and> rn = \<lparr>rn_schedule = vs, rn_injectors = injs, rn_ctx = ctx\<rparr>"
  using check_registered_Ok_iff [of "ValidatedSchedule_steps vs" injs]
  by (auto simp: Runner_new_def split: outcome.splits)

section \<open>Firing the due steps\<close>

text \<open>One round of the loop, inverted once for all the inductions below.\<close>

lemma fire_due_Cons_cases:
  assumes "fire_due ops ctx now (s # due) injs tr w = (r, injs', w')"
    and "fault_id ` set (s # due) \<subseteq> dom (map_of injs)"
  obtains (ok) i i' w1 where "map_of injs (fault_id s) = Some i"
      and "step_call ops ctx (action s) i w = (Ok (), i', w1)"
      and "fire_due ops ctx now due (AList.update (fault_id s) i' injs) (Trace_record tr s now) w1
           = (r, injs', w')"
      and "fault_id ` set due \<subseteq> dom (map_of (AList.update (fault_id s) i' injs))"
  | (err) i i' e where "map_of injs (fault_id s) = Some i"
      and "step_call ops ctx (action s) i w = (Err e, i', w')" and "r = Err e"
      and "injs' = AList.update (fault_id s) i' injs"
  | (panic) i i' m where "map_of injs (fault_id s) = Some i"
      and "step_call ops ctx (action s) i w = (Panic m, i', w')" and "r = Panic m"
      and "injs' = AList.update (fault_id s) i' injs"
proof -
  obtain i where i: "map_of injs (fault_id s) = Some i" using assms(2) by auto
  obtain r' i' w1 where call: "step_call ops ctx (action s) i w = (r', i', w1)"
    by (metis prod_cases3)
  have "fault_id ` set due \<subseteq> dom (map_of (AList.update (fault_id s) i' injs))"
    using assms(2) by (auto simp: update_conv)
  then show thesis
    using assms(1) i call ok err panic by (cases r') (auto simp: Let_def)
qed

lemma fire_due_dom:
  assumes "fire_due ops ctx now due injs tr w = (r, injs', w')"
    and "fault_id ` set due \<subseteq> dom (map_of injs)"
  shows "dom (map_of injs') = dom (map_of injs)"
  using assms
proof (induction due arbitrary: injs tr w)
  case (Cons s due)
  have upd: "dom (map_of (AList.update (fault_id s) i injs)) = dom (map_of injs)" for i
    using Cons.prems(2) by (auto simp: update_conv split: if_splits)
  from Cons.prems show ?case
    by (cases rule: fire_due_Cons_cases) (simp_all add: Cons.IH upd)
qed simp

lemma fire_due_distinct:
  assumes "fire_due ops ctx now due injs tr w = (r, injs', w')"
    and "fault_id ` set due \<subseteq> dom (map_of injs)" and "distinct (map fst injs)"
  shows "distinct (map fst injs')"
  using assms
proof (induction due arbitrary: injs tr w)
  case (Cons s due)
  from Cons.prems(1,2) show ?case
    by (cases rule: fire_due_Cons_cases) (simp_all add: Cons.IH Cons.prems(3) distinct_update)
qed simp

lemma fire_due_trace:
  assumes "fire_due ops ctx now due injs tr w = (Ok tr', injs', w')"
    and "fault_id ` set due \<subseteq> dom (map_of injs)"
  shows "events tr' = events tr @ map (\<lambda>s. \<lparr>ev_step = s, wall_ns = now\<rparr>) due
       \<and> trace_seed tr' = trace_seed tr \<and> scenario_name tr' = scenario_name tr"
  using assms
proof (induction due arbitrary: injs tr w)
  case (Cons s due)
  from Cons.prems show ?case
    by (cases rule: fire_due_Cons_cases) (auto dest: Cons.IH)
qed simp

context fault_injector
begin

lemma armed_ids_update:
  "armed_ids ops (AList.update f i injs)
   = (if op_is_armed ops i then insert f (armed_ids ops injs) else armed_ids ops injs - {f})"
  by (auto simp: armed_ids_def update_conv)

text \<open>The call behind one step: success does to the armed ids what the schedule says, failure arms
  nothing.\<close>

lemma step_call_no_panic: "step_call ops ctx a i w \<noteq> (Panic m, i', w')"
  using arm_panic disarm_panic by (auto simp: step_call_def split: step_action.splits)

lemma step_call_ok:
  assumes "step_call ops ctx (action s) i w = (Ok u, i', w')"
  shows "armed_ids ops (AList.update (fault_id s) i' injs) = apply_step s (armed_ids ops injs)"
  using assms
  by (cases "action s") (auto simp: step_call_def armed_ids_update dest: arm_ok disarm_ok)

lemma step_call_err:
  assumes "map_of injs (fault_id s) = Some i" and "step_call ops ctx (action s) i w = (Err e, i', w')"
  shows "stopped_at (armed_ids ops (AList.update (fault_id s) i' injs)) (armed_ids ops injs) (s # due) 0"
proof -
  have "op_is_armed ops i' \<Longrightarrow> op_is_armed ops i"
    using assms(2) arm_err disarm_err by (cases "action s") (auto simp: step_call_def)
  with assms(1) show ?thesis
    unfolding armed_ids_update by (auto simp: armed_ids_def stopped_at_def)
qed

lemma fire_due_no_panic:
  assumes "fault_id ` set due \<subseteq> dom (map_of injs)"
  shows "fire_due ops ctx now due injs tr w \<noteq> (Panic m, injs', w')"
proof
  assume "fire_due ops ctx now due injs tr w = (Panic m, injs', w')"
  then show False
    using assms
  proof (induction due arbitrary: injs tr w)
    case (Cons s due)
    from Cons.prems show ?case
      by (cases rule: fire_due_Cons_cases) (auto dest: Cons.IH simp: step_call_no_panic)
  qed simp
qed

lemma fire_due_armed:
  assumes "fire_due ops ctx now due injs tr w = (Ok tr', injs', w')"
    and "fault_id ` set due \<subseteq> dom (map_of injs)"
  shows "armed_ids ops injs' = armed_after (armed_ids ops injs) due"
  using assms
proof (induction due arbitrary: injs tr w)
  case (Cons s due)
  from Cons.prems show ?case
  proof (cases rule: fire_due_Cons_cases)
    case ok
    then show ?thesis by (simp only: Cons.IH step_call_ok armed_after_simps)
  qed simp_all
qed simp

text \<open>A run of steps that fails has performed a proper prefix of them.\<close>

lemma fire_due_err:
  assumes "fire_due ops ctx now due injs tr w = (Err e, injs', w')"
    and "fault_id ` set due \<subseteq> dom (map_of injs)"
  shows "\<exists>k. stopped_at (armed_ids ops injs') (armed_ids ops injs) due k"
  using assms
proof (induction due arbitrary: injs tr w)
  case (Cons s due)
  from Cons.prems show ?case
  proof (cases rule: fire_due_Cons_cases)
    case (ok i i' w1)
    obtain k where "stopped_at (armed_ids ops injs') (armed_ids ops (AList.update (fault_id s) i' injs)) due k"
      using Cons.IH [OF ok(3,4)] by blast
    then have "stopped_at (armed_ids ops injs') (armed_ids ops injs) (s # due) (Suc k)"
      unfolding step_call_ok [OF ok(2)] by (simp add: stopped_at_def)
    then show ?thesis ..
  next
    case (err i i' e')
    then show ?thesis using step_call_err [OF err(1,2)] by blast
  qed simp
qed simp

end

section \<open>The main loop\<close>

text \<open>Induction over a run that returned, one case per way a round can go.\<close>

lemma run_loop_induct [consumes 1, case_names finished step err panic]:
  assumes "run_loop ops sleep ctx tick rt s tr injs w = Some res"
    and "\<And>s tr injs w. Scheduler_is_finished s \<Longrightarrow> P s tr injs w (Ok tr, injs, w)"
    and "\<And>s tr injs w due s' tr' injs' w' res.
      \<not> Scheduler_is_finished s \<Longrightarrow> Scheduler_advance s tick = (due, s') \<Longrightarrow>
      fire_due ops ctx (Scheduler_now_ns s') due injs tr (if rt then sleep tick w else w) = (Ok tr', injs', w') \<Longrightarrow>
      P s' tr' injs' w' res \<Longrightarrow> P s tr injs w res"
    and "\<And>s tr injs w due s' e injs' w'.
      \<not> Scheduler_is_finished s \<Longrightarrow> Scheduler_advance s tick = (due, s') \<Longrightarrow>
      fire_due ops ctx (Scheduler_now_ns s') due injs tr (if rt then sleep tick w else w) = (Err e, injs', w') \<Longrightarrow>
      P s tr injs w (Err e, injs', w')"
    and "\<And>s tr injs w due s' m injs' w'.
      \<not> Scheduler_is_finished s \<Longrightarrow> Scheduler_advance s tick = (due, s') \<Longrightarrow>
      fire_due ops ctx (Scheduler_now_ns s') due injs tr (if rt then sleep tick w else w) = (Panic m, injs', w') \<Longrightarrow>
      P s tr injs w (Panic m, injs', w')"
  shows "P s tr injs w res"
proof -
  let ?Q = "\<lambda>ops' sleep' ctx' tick' rt' s tr injs w res.
    ops' = ops \<longrightarrow> sleep' = sleep \<longrightarrow> ctx' = ctx \<longrightarrow> tick' = tick \<longrightarrow> rt' = rt \<longrightarrow> P s tr injs w res"
  have "?Q ops sleep ctx tick rt s tr injs w res"
  proof (rule run_loop.raw_induct [where P = ?Q, OF _ assms(1)], intro impI, goal_cases)
    case (1 loop ops' sleep' ctx' tick' rt' s tr injs w res)
    have same: "ops' = ops" "sleep' = sleep" "ctx' = ctx" "tick' = tick" "rt' = rt"
      using 1 by simp_all
    note round = 1(2) [unfolded same]
    obtain due s' where adv: "Scheduler_advance s tick = (due, s')" by fastforce
    obtain r injs' w' where fire: "fire_due ops ctx (Scheduler_now_ns s') due injs tr
        (if rt then sleep tick w else w) = (r, injs', w')"
      by (metis prod_cases3)
    show ?case
    proof (cases "Scheduler_is_finished s")
      case True
      with round assms(2) show ?thesis by auto
    next
      case False
      note facts = False adv fire
      show ?thesis
      proof (cases r)
        case (Ok tr')
        with round facts have "loop ops sleep ctx tick rt s' tr' injs' w' = Some res" by (simp add: Let_def)
        with 1 have "P s' tr' injs' w' res" by blast
        with facts Ok assms(3) show ?thesis by blast
      next
        case (Err e)
        with round facts have "res = (Err e, injs', w')" by (simp add: Let_def)
        with facts Err assms(4) show ?thesis by blast
      next
        case (Panic m)
        with round facts have "res = (Panic m, injs', w')" by (simp add: Let_def)
        with facts Panic assms(5) show ?thesis by blast
      qed
    qed
  qed
  then show ?thesis by simp
qed

text \<open>The steps a round fires are registered when the pending ones are.\<close>

lemma advance_registered:
  assumes "sched_inv s" and "Scheduler_advance s tick = (due, s')"
    and "fault_id ` set (pending s) \<subseteq> D"
  shows "fault_id ` set due \<subseteq> D" and "fault_id ` set (pending s') \<subseteq> D" and "sched_inv s'"
proof -
  have "set (pending s) = set due \<union> set (pending s')"
    using Scheduler_advance_split [OF assms(1,2)] by (metis set_append)
  with assms(3) show "fault_id ` set due \<subseteq> D" "fault_id ` set (pending s') \<subseteq> D" by auto
  show "sched_inv s'" using assms(1,2) by (rule Scheduler_advance_pending)
qed

lemma run_loop_trace:
  assumes "run_loop ops sleep ctx tick rt s tr injs w = Some (Ok tr', injs', w')"
    and "sched_inv s" and "fault_id ` set (pending s) \<subseteq> dom (map_of injs)"
  shows "map ev_step (events tr') = map ev_step (events tr) @ pending s
       \<and> trace_seed tr' = trace_seed tr \<and> scenario_name tr' = scenario_name tr
       \<and> dom (map_of injs') = dom (map_of injs)"
  using assms
proof (induction s tr injs w "(Ok tr' :: (trace, harness_error) outcome, injs', w')" rule: run_loop_induct)
  case (finished s)
  then show ?case by (simp add: is_finished_iff_pending)
next
  case (step s tr injs w due s' tr1 injs1 w1)
  note reg = advance_registered [OF step.prems(1) step.hyps(2) step.prems(2)]
  have d: "dom (map_of injs1) = dom (map_of injs)"
    using step.hyps(3) reg(1) by (rule fire_due_dom)
  have "map ev_step (events tr1) = map ev_step (events tr) @ due"
    and "trace_seed tr1 = trace_seed tr" and "scenario_name tr1 = scenario_name tr"
    using fire_due_trace [OF step.hyps(3) reg(1)] by (simp_all add: comp_def)
  with step.hyps(4) reg(2,3) d Scheduler_advance_split [OF step.prems(1) step.hyps(2)]
  show ?case by simp
qed

subsection \<open>When steps fire\<close>

text \<open>
  A step fires at the first tick of the virtual clock that reaches its time. The first tick comes
  before the first check, so a step at time 0 fires at \<open>tick_ns\<close>.
\<close>

definition tick_time :: "u64 \<Rightarrow> u64 \<Rightarrow> u64" where
  "tick_time tick t = of_nat (max 1 ((unat t + unat tick - 1) div unat tick)) * tick"

definition on_tick :: "u64 \<Rightarrow> trace_event \<Rightarrow> bool" where
  "on_tick tick e \<longleftrightarrow> wall_ns e = tick_time tick (at_ns (ev_step e))"

definition no_clock_wrap :: "u64 \<Rightarrow> scenario_step list \<Rightarrow> bool" where
  "no_clock_wrap tick ss \<longleftrightarrow> (\<forall>x \<in> set ss. unat (at_ns x) + unat tick < 2 ^ 64)"

text \<open>Between rounds the clock stands on a tick and everything pending lies in the future; at the
  start it stands at 0.\<close>

definition future_inv :: "u64 \<Rightarrow> scheduler \<Rightarrow> bool" where
  "future_inv tick s \<longleftrightarrow>
     (\<exists>k. unat (Scheduler_now_ns s) = k * unat tick)
     \<and> (Scheduler_now_ns s = 0 \<or> (\<forall>x \<in> set (pending s). Scheduler_now_ns s < at_ns x))"

lemma tick_time_between:
  assumes "unat now = k * unat tick" and "unat now' = unat now + unat tick"
    and "at \<le> now'" and "unat now < unat at \<or> now = 0 \<and> at = 0"
  shows "now' = tick_time tick at"
proof -
  have le: "unat at \<le> Suc k * unat tick" using assms(1-3) by (simp add: word_le_nat_alt)
  have "max 1 ((unat at + unat tick - 1) div unat tick) = Suc k" if "0 < unat tick"
    using assms(4)
  proof
    assume lt: "unat now < unat at"
    then have "(unat at + unat tick - 1) div unat tick = Suc k"
      using le that assms(1) by (intro div_nat_eqI) (auto simp: algebra_simps)
    then show ?thesis by simp
  next
    assume "now = 0 \<and> at = 0"
    then show ?thesis using that assms(1) by simp
  qed
  moreover have "unat at = 0" if "unat tick = 0"
    using that le by simp
  moreover have "now' = of_nat (Suc k * unat tick)"
  proof -
    have "unat now' = Suc k * unat tick" using assms(1,2) by simp
    then show ?thesis by (metis of_nat_unat ucast_id)
  qed
  ultimately show ?thesis
    by (cases "unat tick = 0") (simp_all add: tick_time_def unat_eq_0 distrib_right)
qed

lemma advance_round:
  assumes "sched_inv s" and "Scheduler_advance s tick = (due, s')" and "\<not> Scheduler_is_finished s"
    and "sorted (map at_ns (pending s))" and "no_clock_wrap tick (pending s)" and "future_inv tick s"
  shows "unat (Scheduler_now_ns s') = unat (Scheduler_now_ns s) + unat tick"
    and "\<forall>x \<in> set due. on_tick tick \<lparr>ev_step = x, wall_ns = Scheduler_now_ns s'\<rparr>"
    and "sorted (map at_ns (pending s'))" and "no_clock_wrap tick (pending s')" and "future_inv tick s'"
proof -
  let ?now = "Scheduler_now_ns s" and ?now' = "Scheduler_now_ns s'"
  note adv = Scheduler_advance_pending [OF assms(1,2)]
  have parts: "due = filter (\<lambda>x. at_ns x \<le> ?now') (pending s)"
      "pending s' = filter (\<lambda>x. ?now' < at_ns x) (pending s)"
    using takeWhile_sorted_filter [OF assms(4)] adv by simp_all
  obtain x where x: "x \<in> set (pending s)"
    using assms(3) by (cases "pending s") (auto simp: is_finished_iff_pending)
  have "unat ?now \<le> unat (at_ns x)"
    using assms(6) x by (auto simp: future_inv_def word_less_nat_alt)
  moreover have "unat (at_ns x) + unat tick < 2 ^ 64"
    using assms(5) x by (auto simp: no_clock_wrap_def)
  ultimately show now': "unat ?now' = unat ?now + unat tick"
    using adv(3) by (simp add: unat_add_no_wrap)
  obtain k where k: "unat ?now = k * unat tick" using assms(6) by (auto simp: future_inv_def)
  show "\<forall>x \<in> set due. on_tick tick \<lparr>ev_step = x, wall_ns = ?now'\<rparr>"
  proof
    fix x assume xd: "x \<in> set due"
    then have le: "at_ns x \<le> ?now'" and "x \<in> set (pending s)" using parts by auto
    then have "unat ?now < unat (at_ns x) \<or> ?now = 0 \<and> at_ns x = 0"
      using assms(6) unat_gt_0 [of "at_ns x"] by (auto simp: future_inv_def word_less_nat_alt)
    with le show "on_tick tick \<lparr>ev_step = x, wall_ns = ?now'\<rparr>"
      using tick_time_between [OF k now'] by (simp add: on_tick_def)
  qed
  show "sorted (map at_ns (pending s'))"
    using assms(4) unfolding parts by (rule sorted_filter)
  show "no_clock_wrap tick (pending s')" using assms(5) unfolding parts by (auto simp: no_clock_wrap_def)
  have "unat ?now' = Suc k * unat tick" using k now' by simp
  then show "future_inv tick s'" unfolding future_inv_def parts by fastforce
qed

lemma run_loop_on_tick:
  assumes "run_loop ops sleep ctx tick rt s tr injs w = Some (Ok tr', injs', w')"
    and "sched_inv s" and "fault_id ` set (pending s) \<subseteq> dom (map_of injs)"
    and "sorted (map at_ns (pending s))" and "no_clock_wrap tick (pending s)" and "future_inv tick s"
    and "\<forall>e \<in> set (events tr). on_tick tick e"
  shows "\<forall>e \<in> set (events tr'). on_tick tick e"
  using assms
proof (induction s tr injs w "(Ok tr' :: (trace, harness_error) outcome, injs', w')" rule: run_loop_induct)
  case finished
  then show ?case by simp
next
  case (step s tr injs w due s' tr1 injs1 w1)
  note reg = advance_registered [OF step.prems(1) step.hyps(2) step.prems(2)]
  note round = advance_round [OF step.prems(1) step.hyps(2,1) step.prems(3,4,5)]
  have "dom (map_of injs1) = dom (map_of injs)"
    using step.hyps(3) reg(1) by (rule fire_due_dom)
  moreover have "\<forall>e \<in> set (events tr1). on_tick tick e"
    using fire_due_trace [OF step.hyps(3) reg(1)] round(2) step.prems(6) by auto
  ultimately show ?case
    using step.hyps(4) reg(2,3) round(3,4,5) by simp
qed

subsection \<open>Termination\<close>

text \<open>
  The loop ends whatever the injectors do, provided the clock moves and does not wrap before the
  last step: the distance to the latest pending time shrinks with every round.
\<close>

lemma run_loop_terminates:
  assumes "sched_inv s" and "0 < tick" and "\<forall>x \<in> set (pending s). unat (at_ns x) \<le> M"
    and "M + unat tick < 2 ^ 64" and "pending s \<noteq> [] \<Longrightarrow> unat (Scheduler_now_ns s) \<le> M"
  shows "\<exists>res. run_loop ops sleep ctx tick rt s tr injs w = Some res"
  using assms(1,3,5)
proof (induction "Suc M - unat (Scheduler_now_ns s)" arbitrary: s tr injs w rule: less_induct)
  case less
  show ?case
  proof (cases "Scheduler_is_finished s")
    case True
    then show ?thesis by (simp add: run_loop.simps)
  next
    case False
    then have now: "unat (Scheduler_now_ns s) \<le> M"
      using less.prems(3) by (simp add: is_finished_iff_pending)
    obtain due s' where adv: "Scheduler_advance s tick = (due, s')" by fastforce
    note round = Scheduler_advance_pending [OF less.prems(1) adv]
    have now': "unat (Scheduler_now_ns s') = unat (Scheduler_now_ns s) + unat tick"
      unfolding round(3) using now assms(4) by (intro unat_add_no_wrap) simp
    have sub: "set (pending s') \<subseteq> set (pending s)"
      using round(2) by (auto dest: set_dropWhileD)
    have "unat (Scheduler_now_ns s') \<le> M" if "pending s' \<noteq> []"
    proof -
      have "\<not> at_ns (hd (pending s')) \<le> Scheduler_now_ns s'"
        using that unfolding round(2,3) by (rule hd_dropWhile)
      moreover have "unat (at_ns (hd (pending s'))) \<le> M"
        using that sub less.prems(2) by (meson hd_in_set subsetD)
      ultimately show ?thesis by (simp add: word_le_nat_alt)
    qed
    then have IH: "\<exists>res. run_loop ops sleep ctx tick rt s' tr' injs' w' = Some res" for tr' injs' w'
      using now now' assms(2) sub less.prems(2) round(5)
      by (intro less.hyps) (auto simp: word_less_nat_alt)
    show ?thesis
      using False adv IH by (subst run_loop.simps) (auto simp: Let_def split: prod.splits outcome.splits)
  qed
qed

text \<open>
  Otherwise it can go on forever: if no tick ever lands at or after the next pending time, nothing
  is left that could stop the loop.
\<close>

lemma run_loop_diverges:
  assumes "sched_inv s" and "pending s \<noteq> []"
    and "\<forall>k. Scheduler_now_ns s + of_nat k * tick < at_ns (hd (pending s))"
  shows "run_loop ops sleep ctx tick rt s tr injs w = None"
proof (rule ccontr)
  assume "run_loop ops sleep ctx tick rt s tr injs w \<noteq> None"
  then obtain res where "run_loop ops sleep ctx tick rt s tr injs w = Some res" by blast
  then show False
    using assms
  proof (induction s tr injs w res rule: run_loop_induct)
    case (finished s)
    then show ?case by (simp add: is_finished_iff_pending)
  next
    case (step s tr injs w due s')
    note round = Scheduler_advance_pending [OF step.prems(1) step.hyps(2)]
    have "Scheduler_now_ns s + of_nat (Suc 0) * tick < at_ns (hd (pending s))"
      using step.prems(3) by blast
    then have same: "pending s' = pending s"
      unfolding round(2) using step.prems(2) by (cases "pending s") auto
    have "Scheduler_now_ns s' + of_nat k * tick < at_ns (hd (pending s'))" for k
      using step.prems(3) [rule_format, of "Suc k"] by (simp add: same round(3) algebra_simps)
    then show ?case using step.IH round(5) step.prems(2) by (simp add: same)
  next
    case (err s tr injs w due s' e injs' w')
    note round = Scheduler_advance_pending [OF err.prems(1) err.hyps(2)]
    have "Scheduler_now_ns s + of_nat (Suc 0) * tick < at_ns (hd (pending s))"
      using err.prems(3) by blast
    then have "due = []" unfolding round(1) using err.prems(2) by (cases "pending s") auto
    with err.hyps(3) show ?case by simp
  next
    case (panic s tr injs w due s' m injs' w')
    note round = Scheduler_advance_pending [OF panic.prems(1) panic.hyps(2)]
    have "Scheduler_now_ns s + of_nat (Suc 0) * tick < at_ns (hd (pending s))"
      using panic.prems(3) by blast
    then have "due = []" unfolding round(1) using panic.prems(2) by (cases "pending s") auto
    with panic.hyps(3) show ?case by simp
  qed
qed

subsection \<open>What a run leaves armed\<close>

context fault_injector
begin

lemma run_loop_no_panic:
  assumes "run_loop ops sleep ctx tick rt s tr injs w = Some res"
    and "sched_inv s" and "fault_id ` set (pending s) \<subseteq> dom (map_of injs)"
  shows "\<not> is_panic (fst res)"
  using assms
proof (induction s tr injs w res rule: run_loop_induct)
  case (step s tr injs w due s' tr1 injs1 w1 res)
  note reg = advance_registered [OF step.prems(1) step.hyps(2) step.prems(2)]
  have "dom (map_of injs1) = dom (map_of injs)"
    using step.hyps(3) reg(1) by (rule fire_due_dom)
  with step.IH reg show ?case by simp
next
  case (panic s tr injs w due s' m injs' w')
  note reg = advance_registered [OF panic.prems(1) panic.hyps(2) panic.prems(2)]
  from fire_due_no_panic [OF reg(1)] panic.hyps(3) show ?case by force
qed simp_all

lemma run_loop_armed:
  assumes "run_loop ops sleep ctx tick rt s tr injs w = Some (Ok tr', injs', w')"
    and "sched_inv s" and "fault_id ` set (pending s) \<subseteq> dom (map_of injs)"
  shows "armed_ids ops injs' = armed_after (armed_ids ops injs) (pending s)"
  using assms
proof (induction s tr injs w "(Ok tr' :: (trace, harness_error) outcome, injs', w')" rule: run_loop_induct)
  case (finished s)
  then show ?case by (simp add: is_finished_iff_pending)
next
  case (step s tr injs w due s' tr1 injs1 w1)
  note reg = advance_registered [OF step.prems(1) step.hyps(2) step.prems(2)]
  have "dom (map_of injs1) = dom (map_of injs)"
    using step.hyps(3) reg(1) by (rule fire_due_dom)
  moreover have "armed_ids ops injs1 = armed_after (armed_ids ops injs) due"
    using step.hyps(3) reg(1) by (rule fire_due_armed)
  ultimately show ?case
    using step.hyps(4) reg(2,3) Scheduler_advance_split [OF step.prems(1) step.hyps(2)] by simp
qed

lemma stopped_at_append:
  "stopped_at armed A ss k \<Longrightarrow> stopped_at armed A (ss @ ts) k"
  "stopped_at armed (armed_after A ss) ts k \<Longrightarrow> stopped_at armed A (ss @ ts) (length ss + k)"
  by (simp_all add: stopped_at_def nth_append)

lemma run_loop_err:
  assumes "run_loop ops sleep ctx tick rt s tr injs w = Some (Err e, injs', w')"
    and "sched_inv s" and "fault_id ` set (pending s) \<subseteq> dom (map_of injs)"
  shows "\<exists>k. stopped_at (armed_ids ops injs') (armed_ids ops injs) (pending s) k"
  using assms
proof (induction s tr injs w "(Err e :: (trace, harness_error) outcome, injs', w')" rule: run_loop_induct)
  case (step s tr injs w due s' tr1 injs1 w1)
  note reg = advance_registered [OF step.prems(1) step.hyps(2) step.prems(2)]
  have "dom (map_of injs1) = dom (map_of injs)"
    using step.hyps(3) reg(1) by (rule fire_due_dom)
  with step.hyps(4) reg(2,3) obtain k where "stopped_at (armed_ids ops injs') (armed_ids ops injs1) (pending s') k"
    by auto
  with fire_due_armed [OF step.hyps(3) reg(1)]
  have "stopped_at (armed_ids ops injs') (armed_ids ops injs) (due @ pending s') (length due + k)"
    by (intro stopped_at_append) simp
  with Scheduler_advance_split [OF step.prems(1) step.hyps(2)] show ?case by auto
next
  case (err s tr injs w due s')
  note reg = advance_registered [OF err.prems(1) err.hyps(2) err.prems(2)]
  obtain k where "stopped_at (armed_ids ops injs') (armed_ids ops injs) due k"
    using fire_due_err [OF err.hyps(3) reg(1)] by blast
  with Scheduler_advance_split [OF err.prems(1) err.hyps(2)] stopped_at_append(1) show ?case by metis
qed

lemmas run_inner_unfold = Runner_run_inner_def Runner_new_Ok

text \<open>The same for a whole \<^verbatim>\<open>run_inner\<close> of a runner \<^verbatim>\<open>Runner::new\<close> accepted.\<close>

lemma run_inner_ok:
  assumes "Runner_new vs injs ctx = Ok rn"
    and "Runner_run_inner ops sleep rn tick rt w = Some (Ok tr, rn', w')"
  shows "armed_ids ops (rn_injectors rn') = armed_after (armed_ids ops injs) (ValidatedSchedule_steps vs)"
  using assms run_loop_armed [of sleep ctx tick rt "Scheduler_new vs 0"]
  by (auto simp: run_inner_unfold split: option.splits)

lemma run_inner_err:
  assumes "Runner_new vs injs ctx = Ok rn"
    and "Runner_run_inner ops sleep rn tick rt w = Some (Err e, rn', w')"
  shows "\<exists>k. stopped_at (armed_ids ops (rn_injectors rn')) (armed_ids ops injs) (ValidatedSchedule_steps vs) k"
  using assms run_loop_err [of sleep ctx tick rt "Scheduler_new vs 0"]
  by (auto simp: run_inner_unfold split: option.splits)

lemma run_inner_no_panic:
  assumes "Runner_new vs injs ctx = Ok rn"
    and "Runner_run_inner ops sleep rn tick rt w = Some (r, rn', w')"
  shows "\<not> is_panic r"
  using assms run_loop_no_panic [of sleep ctx tick rt "Scheduler_new vs 0"]
  by (auto simp: run_inner_unfold split: option.splits)

subsection \<open>Teardown\<close>

lemma teardown_loop_spec:
  "teardown_loop ops injs fe w = (out, injs', w') \<Longrightarrow>
     \<exists>fe'. out = Ok fe' \<and> (fe \<noteq> None \<longrightarrow> fe' = fe) \<and> list_all2 (torn_down ops (fe' = None)) injs injs'"
proof (induction injs arbitrary: fe w injs' out w')
  case (Cons p injs)
  obtain k i where p: "p = (k, i)" by fastforce
  show ?case
  proof (cases "op_is_armed ops i")
    case False
    obtain injs1 out1 w1 where rest: "teardown_loop ops injs fe w = (out1, injs1, w1)"
      by (metis prod_cases3)
    have "torn_down ops c (k, i) (k, i)" for c using False by (simp add: torn_down_def)
    moreover have "out = out1" "injs' = (k, i) # injs1"
      using False Cons.prems rest by (simp_all add: p)
    ultimately show ?thesis using Cons.IH [OF rest] by (auto simp: p)
  next
    case True
    obtain r i' w1 where d: "op_disarm ops i w = (r, i', w1)" by (metis prod_cases3)
    define fe1 where "fe1 = (case r of Err e \<Rightarrow> (if fe = None then Some e else fe) | _ \<Rightarrow> fe)"
    obtain injs1 out1 w2 where rest: "teardown_loop ops injs fe1 w1 = (out1, injs1, w2)"
      by (metis prod_cases3)
    have np: "\<not> is_panic r" using d disarm_panic by (auto simp: is_panic_iff)
    then have res: "out = out1" "injs' = (k, i') # injs1"
      using Cons.prems True d rest by (auto simp: p fe1_def Let_def split: outcome.splits)
    obtain fe' where fe': "out1 = Ok fe'" "fe1 \<noteq> None \<longrightarrow> fe' = fe1"
        "list_all2 (torn_down ops (fe' = None)) injs injs1"
      using Cons.IH [OF rest] by blast
    have "r = Ok ()" if "fe' = None"
      using that fe'(2) np by (cases r) (auto simp: fe1_def split: if_splits)
    then have "torn_down ops (fe' = None) (k, i) (k, i')"
      using True d by (auto simp: torn_down_def)
    moreover have "fe \<noteq> None \<longrightarrow> fe' = fe"
      using fe'(2) by (auto simp: fe1_def split: outcome.splits)
    ultimately show ?thesis
      using res fe' by (simp add: p)
  qed
qed simp

lemma torn_down_key: "torn_down ops c (k, i) (k', i') \<Longrightarrow> k' = k"
  by (simp add: torn_down_def)

lemma torn_down_clean: "torn_down ops True (k, i) (k', i') \<Longrightarrow> \<not> op_is_armed ops i'"
  by (auto simp: torn_down_def dest: disarm_ok split: if_splits)

lemma torn_down_never_arms: "torn_down ops c (k, i) (k', i') \<Longrightarrow> op_is_armed ops i' \<Longrightarrow> op_is_armed ops i"
  by (auto simp: torn_down_def split: if_splits)

lemma torn_down_map_of:
  "list_all2 (torn_down ops c) injs injs' \<Longrightarrow> map_of injs' f = Some i' \<Longrightarrow>
     \<exists>i. map_of injs f = Some i \<and> torn_down ops c (f, i) (f, i')"
proof (induction rule: list_all2_induct)
  case (Cons x xs y ys)
  obtain k i j where "x = (k, i)" "y = (k, j)"
    using torn_down_key Cons.hyps(1) by (metis surj_pair)
  with Cons show ?case by (simp split: if_splits)
qed simp

lemma teardown_spec:
  assumes "Runner_teardown ops rn w = (r, rn', w')"
  shows "list_all2 (torn_down ops (r = Ok ())) (rn_injectors rn) (rn_injectors rn')"
    and "\<not> is_panic r" and "r = Ok () \<Longrightarrow> armed_ids ops (rn_injectors rn') = {}"
    and "armed_ids ops (rn_injectors rn') \<subseteq> armed_ids ops (rn_injectors rn)"
proof -
  obtain out injs' where t: "teardown_loop ops (rn_injectors rn) None w = (out, injs', w')"
    and rn': "rn' = rn\<lparr>rn_injectors := injs'\<rparr>"
    and r: "r = (case out of Ok None \<Rightarrow> Ok () | Ok (Some e) \<Rightarrow> Err e | Err e \<Rightarrow> Err e | Panic m \<Rightarrow> Panic m)"
    using assms by (auto simp: Runner_teardown_def split: prod.splits)
  obtain fe where fe: "out = Ok fe" "list_all2 (torn_down ops (fe = None)) (rn_injectors rn) injs'"
    using teardown_loop_spec [OF t] by blast
  have clean: "(fe = None) = (r = Ok ())" using r fe(1) by (auto split: option.splits)
  show all: "list_all2 (torn_down ops (r = Ok ())) (rn_injectors rn) (rn_injectors rn')"
    using fe(2) by (simp add: rn' clean)
  show "\<not> is_panic r" using r fe(1) by (auto split: option.splits)
  show "r = Ok () \<Longrightarrow> armed_ids ops (rn_injectors rn') = {}"
    using torn_down_map_of [OF all] torn_down_clean by (simp add: armed_ids_def) blast
  show "armed_ids ops (rn_injectors rn') \<subseteq> armed_ids ops (rn_injectors rn)"
    using torn_down_map_of [OF all] torn_down_never_arms unfolding armed_ids_def by blast
qed

end

interpretation counting: fault_injector counting_ops
  by unfold_locales
    (auto simp: counting_ops_def CountingInjector_arm_def CountingInjector_disarm_def)

subsection \<open>Runs whose calls all succeed\<close>

lemma fire_due_never_fails:
  assumes "never_fails ops" and "fault_id ` set due \<subseteq> dom (map_of injs)"
  shows "is_ok (fst (fire_due ops ctx now due injs tr w))"
proof (cases "fire_due ops ctx now due injs tr w")
  case (fields r injs' w')
  have "fst (step_call ops ctx a i v) = Ok ()" for a i v
    using assms(1) by (simp add: step_call_def never_fails_def split: step_action.split)
  then have never: "step_call ops ctx a i v \<noteq> (Err e, i', v')" "step_call ops ctx a i v \<noteq> (Panic m, i', v')"
    for a i v e m i' v' by (metis fst_conv outcome.distinct(1), metis fst_conv outcome.distinct(3))
  have "fault_id ` set due \<subseteq> dom (map_of injs) \<Longrightarrow>
        fire_due ops ctx now due injs tr w = (r, injs', w') \<Longrightarrow> is_ok r"
  proof (induction due arbitrary: injs tr w)
    case (Cons s due)
    from Cons.prems(2,1) show ?case
      by (cases rule: fire_due_Cons_cases) (auto simp: never intro: Cons.IH)
  qed auto
  with assms(2) fields show ?thesis by simp
qed

lemma run_loop_never_fails:
  assumes "run_loop ops sleep ctx tick rt s tr injs w = Some res" and "never_fails ops"
    and "sched_inv s" and "fault_id ` set (pending s) \<subseteq> dom (map_of injs)"
  shows "is_ok (fst res)"
  using assms(1,3,4)
proof (induction s tr injs w res rule: run_loop_induct)
  case (step s tr injs w due s' tr1 injs1 w1 res)
  note reg = advance_registered [OF step.prems(1) step.hyps(2) step.prems(2)]
  with step.IH fire_due_dom [OF step.hyps(3) reg(1)] show ?case by simp
next
  case (err s tr injs w due s')
  note reg = advance_registered [OF err.prems(1) err.hyps(2) err.prems(2)]
  show ?case using fire_due_never_fails [OF assms(2) reg(1)] err.hyps(3) by (metis fst_conv is_ok.simps(2))
next
  case (panic s tr injs w due s')
  note reg = advance_registered [OF panic.prems(1) panic.hyps(2) panic.prems(2)]
  show ?case using fire_due_never_fails [OF assms(2) reg(1)] panic.hyps(3) by (metis fst_conv is_ok.simps(3))
qed simp

section \<open>Properties\<close>

lemma run_inner_trace:
  assumes "Runner_new vs injs ctx = Ok rn"
    and "Runner_run_inner ops sleep rn tick rt w = Some (Ok tr, rn', w')"
  shows "map ev_step (events tr) = ValidatedSchedule_steps vs
       \<and> trace_seed tr = ValidatedSchedule_seed vs \<and> scenario_name tr = ValidatedSchedule_name vs"
  using assms run_loop_trace [of ops sleep ctx tick rt "Scheduler_new vs 0"]
  by (auto simp: Runner_run_inner_def Runner_new_Ok split: option.splits)

lemma run_inner_on_tick:
  assumes "Runner_new vs injs ctx = Ok rn"
    and "Runner_run_inner ops sleep rn tick rt w = Some (Ok tr, rn', w')"
    and "sorted (map at_ns (ValidatedSchedule_steps vs))" and "no_clock_wrap tick (ValidatedSchedule_steps vs)"
  shows "\<forall>e \<in> set (events tr). on_tick tick e"
proof -
  have "future_inv tick (Scheduler_new vs 0)" by (simp add: future_inv_def)
  with assms run_loop_on_tick [of ops sleep ctx tick rt "Scheduler_new vs 0"] show ?thesis
    by (auto simp: Runner_run_inner_def Runner_new_Ok split: option.splits)
qed

lemma on_tick_events:
  "\<forall>e \<in> set es. on_tick tick e \<Longrightarrow>
   es = map (\<lambda>x. \<lparr>ev_step = x, wall_ns = tick_time tick (at_ns x)\<rparr>) (map ev_step es)"
  by (induction es) (auto simp: on_tick_def)

lemma run_inner_exact:
  assumes "ValidatedSchedule_validate sc = Ok vs" and "Runner_new vs injs ctx = Ok rn"
    and "no_clock_wrap tick (steps sc)"
    and "Runner_run_inner ops sleep rn tick rt w = Some (Ok tr, rn', w')"
  shows "tr = \<lparr>scenario_name = name sc, trace_seed = seed sc,
               events = map (\<lambda>x. \<lparr>ev_step = x, wall_ns = tick_time tick (at_ns x)\<rparr>) (steps sc)\<rparr>"
proof -
  have st: "ValidatedSchedule_steps vs = steps sc" and "sorted (map at_ns (steps sc))"
    using validated_steps [OF assms(1)] by (auto simp: well_formed_steps_def time_sorted_def)
  then have "\<forall>e \<in> set (events tr). on_tick tick e"
    using run_inner_on_tick [OF assms(2,4)] assms(3) by simp
  from on_tick_events [OF this] run_inner_trace [OF assms(2,4)] st show ?thesis
    using assms(1) by (simp add: validate_eq_Ok_iff ValidatedSchedule_seed_def ValidatedSchedule_name_def)
qed

text \<open>
  C2: a run that succeeds records the whole schedule, and its trace is a function of the scenario
  and the tick alone: name and seed are the scenario's, and every step is logged, in order, at the
  first tick that reaches its time. Neither the injectors nor the world can change a byte of it.
\<close>

theorem run_trace_exact:
  assumes "ValidatedSchedule_validate sc = Ok vs" and "Runner_new vs injs ctx = Ok rn"
    and "no_clock_wrap tick (steps sc)"
    and "Runner_run_inner ops sleep rn tick rt w = Some (Ok tr, rn', w')"
  shows "tr = \<lparr>scenario_name = name sc, trace_seed = seed sc,
               events = map (\<lambda>x. \<lparr>ev_step = x, wall_ns = tick_time tick (at_ns x)\<rparr>) (steps sc)\<rparr>"
  using assms by (rule run_inner_exact)

lemmas run_eval =
  Runner_run_def Runner_run_realtime_def Runner_run_inner_def run_loop.simps Scheduler_is_finished_def
  Scheduler_advance_def Scheduler_new_def ValidatedSchedule_steps_def ValidatedSchedule_name_def
  ValidatedSchedule_seed_def Scheduler_now_ns_def VirtualClock_now_ns_def VirtualClock_new_def
  VirtualClock_advance_def Let_def step_call_def counting_ops_def CountingInjector_arm_def
  CountingInjector_disarm_def Trace_record_def Trace_new_def advance_cursor_takeWhile

abbreviation test_runner :: "counting_injector runner" where
  "test_runner \<equiv> \<lparr>rn_schedule = test_schedule, rn_injectors = test_injectors, rn_ctx = test_ctx\<rparr>"

lemma test_valid: "ValidatedSchedule_validate (vs_scenario test_schedule) = Ok test_schedule"
  by (simp add: ValidatedSchedule_validate_def test_schedule_def)

lemma test_new: "Runner_new test_schedule test_injectors test_ctx = Ok test_runner"
  by (simp add: Runner_new_def test_schedule_def test_injectors_def ValidatedSchedule_steps_def)

lemma test_run:
  "Runner_run_inner counting_ops (\<lambda>d w. w) test_runner 2500 rt () =
   Some (Ok \<lparr>scenario_name = ''test'', trace_seed = 1,
             events = map (\<lambda>x. \<lparr>ev_step = x, wall_ns = (if action x = Arm then 2500 else 5000)\<rparr>)
                        (ValidatedSchedule_steps test_schedule)\<rparr>,
         \<lparr>rn_schedule = test_schedule,
          rn_injectors = [(''pkt-loss'', \<lparr>ci_id = ''pkt-loss'', ci_armed = False, arm_calls = 1, disarm_calls = 1\<rparr>)],
          rn_ctx = test_ctx\<rparr>, ())"
  by (simp add: run_eval test_schedule_def test_injectors_def test_ctx_def)

theorem run_trace_exact_witness:
  "\<exists>tr rn'. Runner_run_inner counting_ops (\<lambda>d w. w) test_runner 2500 False () = Some (Ok tr, rn', ())
     \<and> tr = \<lparr>scenario_name = ''test'', trace_seed = 1,
             events = map (\<lambda>x. \<lparr>ev_step = x, wall_ns = tick_time 2500 (at_ns x)\<rparr>)
                        (ValidatedSchedule_steps test_schedule)\<rparr>
     \<and> map wall_ns (events tr) = [2500, 5000]"
proof -
  have "no_clock_wrap 2500 (steps (vs_scenario test_schedule))"
    by (simp add: no_clock_wrap_def test_schedule_def)
  from run_trace_exact [OF test_valid test_new this test_run [of False]] show ?thesis
    unfolding test_run by (simp add: test_schedule_def ValidatedSchedule_steps_def)
qed

text \<open>
  C1: replay is deterministic. Two runs of one schedule that succeed match in the sense the CLI
  checks, whatever injectors, worlds and ticks they ran with and whether or not they slept; with the
  same tick and no wrap of the clock the traces are equal, wall times included.
\<close>

theorem replay_deterministic:
  assumes "ValidatedSchedule_validate sc = Ok vs"
    and "Runner_new vs injs1 ctx1 = Ok rn1" and "Runner_new vs injs2 ctx2 = Ok rn2"
    and "Runner_run_realtime ops1 sleep1 rn1 tick1 w1 = Some (Ok tr1, rn1', w1')"
    and "Runner_run ops2 sleep2 rn2 tick2 w2 = Some (Ok tr2, rn2', w2')"
  shows "Trace_matches_schedule tr1 tr2
       \<and> (tick1 = tick2 \<longrightarrow> no_clock_wrap tick1 (steps sc) \<longrightarrow> tr1 = tr2)"
proof -
  note runs = assms(4) [unfolded Runner_run_realtime_def] assms(5) [unfolded Runner_run_def]
  note trace = run_inner_trace [OF assms(2) runs(1)] run_inner_trace [OF assms(3) runs(2)]
  have "tr1 = tr2" if "tick1 = tick2" "no_clock_wrap tick1 (steps sc)"
    using that run_inner_exact [OF assms(1,2) _ runs(1)] run_inner_exact [OF assms(1,3) _ runs(2)] by simp
  with trace show ?thesis by (simp add: Trace_matches_schedule_def)
qed

theorem replay_deterministic_witness:
  "\<exists>tr1 tr2 rn1 rn2.
     Runner_run_realtime counting_ops (\<lambda>d w. w) test_runner 2500 () = Some (Ok tr1, rn1, ())
     \<and> Runner_run counting_ops (\<lambda>d w. w) test_runner 2500 () = Some (Ok tr2, rn2, ())
     \<and> Trace_matches_schedule tr1 tr2"
proof -
  note runs = test_run [of True, folded Runner_run_realtime_def] test_run [of False, folded Runner_run_def]
  from replay_deterministic [OF test_valid test_new test_new runs] runs show ?thesis by blast
qed

lemma no_clock_wrap_bound:
  "no_clock_wrap tick ss \<Longrightarrow> \<exists>M. (\<forall>x \<in> set ss. unat (at_ns x) \<le> M) \<and> M + unat tick < 2 ^ 64"
proof (induction ss)
  case Nil
  then show ?case using unat_u64_lt [of tick] by (intro exI [where x = 0]) simp
next
  case (Cons x ss)
  then obtain M where M: "\<forall>y \<in> set ss. unat (at_ns y) \<le> M" "M + unat tick < 2 ^ 64"
    by (auto simp: no_clock_wrap_def)
  have "unat (at_ns x) + unat tick < 2 ^ 64" using Cons.prems by (auto simp: no_clock_wrap_def)
  with M show ?case by (intro exI [where x = "max M (unat (at_ns x))"]) (auto simp: max_def)
qed

lemma run_inner_returns:
  assumes "Runner_new vs injs ctx = Ok rn" and "0 < tick"
    and "no_clock_wrap tick (ValidatedSchedule_steps vs)"
  shows "\<exists>r rn' w'. Runner_run_inner ops sleep rn tick rt w = Some (r, rn', w')
           \<and> (never_fails ops \<longrightarrow> is_ok r)"
proof -
  obtain M where M: "\<forall>x \<in> set (pending (Scheduler_new vs 0)). unat (at_ns x) \<le> M" "M + unat tick < 2 ^ 64"
    using no_clock_wrap_bound [OF assms(3)] by auto
  have "\<exists>res. run_loop ops sleep ctx tick rt (Scheduler_new vs 0)
      (Trace_new (ValidatedSchedule_name vs) (ValidatedSchedule_seed vs)) injs w = Some res"
    by (rule run_loop_terminates [OF sched_inv_new assms(2) M]) simp
  then obtain res where res: "run_loop ops sleep ctx tick rt (Scheduler_new vs 0)
      (Trace_new (ValidatedSchedule_name vs) (ValidatedSchedule_seed vs)) injs w = Some res" by blast
  then have "never_fails ops \<longrightarrow> is_ok (fst res)"
    using run_loop_never_fails [OF res _ sched_inv_new] assms(1) by (simp add: Runner_new_Ok)
  with res assms(1) show ?thesis
    by (cases res) (simp add: Runner_run_inner_def Runner_new_Ok)
qed

text \<open>
  C6: with a positive tick, and provided the clock does not wrap before the last step, a run returns
  whatever the injectors do; if their calls succeed, it returns a trace.
\<close>

theorem run_terminates:
  assumes "Runner_new vs injs ctx = Ok rn" and "0 < tick"
    and "no_clock_wrap tick (ValidatedSchedule_steps vs)"
  shows "\<exists>r rn' w'. Runner_run_inner ops sleep rn tick rt w = Some (r, rn', w')
           \<and> (never_fails ops \<longrightarrow> is_ok r)"
  using assms by (rule run_inner_returns)

theorem run_terminates_witness:
  "\<exists>r rn' w'. Runner_run_inner counting_ops (\<lambda>d w. w) test_runner 1 True () = Some (r, rn', w') \<and> is_ok r"
proof -
  have zero: "(0 :: u64) < 1" by simp
  have "no_clock_wrap 1 (ValidatedSchedule_steps test_schedule)"
    by (simp add: no_clock_wrap_def test_schedule_def ValidatedSchedule_steps_def)
  moreover have "never_fails (counting_ops :: (counting_injector, unit) injector_ops)"
    by (simp add: never_fails_def counting_ops_def CountingInjector_arm_def CountingInjector_disarm_def)
  ultimately show ?thesis
    using run_terminates [OF test_new zero, of counting_ops "\<lambda>d w. w" True "()"] by blast
qed

text \<open>
  C38: a run whose ticks never land at or after the first step's time does not return, in
  particular a run with a tick of 0: \<^verbatim>\<open>run_inner\<close> has no guard against it.
\<close>

theorem run_diverges:
  assumes "ValidatedSchedule_steps vs = x # xs" and "Runner_new vs injs ctx = Ok rn"
    and "\<forall>k. of_nat k * tick < at_ns x"
  shows "Runner_run_inner ops sleep rn tick rt w = None"
  using assms run_loop_diverges [OF sched_inv_new, of vs 0 tick ops sleep ctx rt _ injs w]
  by (simp add: Runner_run_inner_def Runner_new_Ok)

theorem run_diverges_witness:
  "Runner_run_inner counting_ops (\<lambda>d w. w) test_runner 0 False () = None"
proof -
  have "ValidatedSchedule_steps test_schedule = hd (ValidatedSchedule_steps test_schedule) # tl (ValidatedSchedule_steps test_schedule)"
    by (simp add: test_schedule_def ValidatedSchedule_steps_def)
  moreover have "\<forall>k. of_nat k * 0 < at_ns (hd (ValidatedSchedule_steps test_schedule))"
    by (simp add: test_schedule_def ValidatedSchedule_steps_def)
  ultimately show ?thesis by (rule run_diverges [OF _ test_new])
qed

end
