(* ===== verification/Bpf_Util.thy ===== *)
theory Bpf_Util
  imports Core_Types
begin

text \<open>
  \<^verbatim>\<open>kernel/src/bpf_util.rs\<close> and what the three XDP injectors share. The \<^verbatim>\<open>aya\<close> library is a
  parameter, the record \<open>bpf_env\<close> of the calls the source makes on it; a loaded object is an opaque
  handle, the kernel's maps are part of the world. \<open>maps_work\<close> is the documented behaviour of array
  maps: a successful write is what the program reads from then on, and other maps keep their values.
\<close>

section \<open>Definitions\<close>

datatype map_value = U32 u32 | Bytes16 bytes

text \<open>
  \<open>be_program\<close> and \<open>be_map\<close> return \<open>None\<close> if the object has no such program or map, \<open>Some (Some e)\<close>
  if it is not of the requested type, and \<open>Some None\<close> if it is; \<open>be_get\<close> is the kernel's side of a map.
\<close>

record ('h, 'w) bpf_env =
  be_load :: "string \<Rightarrow> 'w \<Rightarrow> (string + 'h) \<times> 'w"
  be_program :: "'h \<Rightarrow> string \<Rightarrow> string option option"
  be_prog_load :: "'h \<Rightarrow> string \<Rightarrow> 'w \<Rightarrow> string option \<times> 'w"
  be_attach :: "'h \<Rightarrow> string \<Rightarrow> string \<Rightarrow> 'w \<Rightarrow> string option \<times> 'w"
  be_map :: "'h \<Rightarrow> string \<Rightarrow> string option option"
  be_set :: "'h \<Rightarrow> string \<Rightarrow> map_value \<Rightarrow> 'w \<Rightarrow> string option \<times> 'w"
  be_get :: "'h \<Rightarrow> string \<Rightarrow> 'w \<Rightarrow> map_value"

definition set_map ::
  "('h, 'w) bpf_env \<Rightarrow> 'h \<Rightarrow> string \<Rightarrow> string \<Rightarrow> map_value \<Rightarrow> 'w \<Rightarrow> (unit, harness_error) outcome \<times> 'w" where
  "set_map env bpf injector_id map_name v w =
     (case be_map env bpf map_name of
        None \<Rightarrow> (Err (ArmFailed injector_id (''no map named '' @ map_name)), w)
      | Some (Some e) \<Rightarrow> (Err (ArmFailed injector_id e), w)
      | Some None \<Rightarrow>
          (case be_set env bpf map_name v w of
             (Some e, w') \<Rightarrow> (Err (ArmFailed injector_id e), w')
           | (None, w') \<Rightarrow> (Ok (), w')))"

definition set_u32_map ::
  "('h, 'w) bpf_env \<Rightarrow> 'h \<Rightarrow> string \<Rightarrow> string \<Rightarrow> u32 \<Rightarrow> 'w \<Rightarrow> (unit, harness_error) outcome \<times> 'w" where
  "set_u32_map env bpf injector_id map_name v w = set_map env bpf injector_id map_name (U32 v) w"

definition set_bytes16_map ::
  "('h, 'w) bpf_env \<Rightarrow> 'h \<Rightarrow> string \<Rightarrow> string \<Rightarrow> bytes \<Rightarrow> 'w \<Rightarrow> (unit, harness_error) outcome \<times> 'w" where
  "set_bytes16_map env bpf injector_id map_name v w = set_map env bpf injector_id map_name (Bytes16 v) w"

text \<open>The first part of \<^verbatim>\<open>ensure_loaded\<close>, the same in all three injectors: load the object, find the
  program, load it into the kernel, attach it to the interface.\<close>

definition load_and_attach ::
  "('h, 'w) bpf_env \<Rightarrow> string \<Rightarrow> string \<Rightarrow> string \<Rightarrow> string \<Rightarrow> 'w \<Rightarrow> ('h, harness_error) outcome \<times> 'w" where
  "load_and_attach env i obj prog iface w =
     (case be_load env obj w of
        (Inl e, w1) \<Rightarrow> (Err (ArmFailed i e), w1)
      | (Inr bpf, w1) \<Rightarrow>
          (case be_program env bpf prog of
             None \<Rightarrow> (Err (ArmFailed i (''no program named '' @ prog @ '' in object'')), w1)
           | Some (Some e) \<Rightarrow> (Err (ArmFailed i e), w1)
           | Some None \<Rightarrow>
               (case be_prog_load env bpf prog w1 of
                  (Some e, w2) \<Rightarrow> (Err (ArmFailed i e), w2)
                | (None, w2) \<Rightarrow>
                    (case be_attach env bpf prog iface w2 of
                       (Some e, w3) \<Rightarrow> (Err (ArmFailed i e), w3)
                     | (None, w3) \<Rightarrow> (Ok bpf, w3)))))"

text \<open>The verdicts of an XDP program.\<close>

datatype xdp_action = XDP_PASS | XDP_DROP

definition maps_work :: "('h, 'w) bpf_env \<Rightarrow> bool" where
  "maps_work env \<longleftrightarrow>
     (\<forall>h m v w w'. be_set env h m v w = (None, w') \<longrightarrow>
        be_get env h m w' = v \<and> (\<forall>m'. m' \<noteq> m \<longrightarrow> be_get env h m' w' = be_get env h m' w))"

text \<open>The value of a map as the program's declaration types it.\<close>

fun as_u32 :: "map_value \<Rightarrow> u32 option" where
  "as_u32 (U32 v) = Some v"
| "as_u32 (Bytes16 bs) = None"

fun as_bytes16 :: "map_value \<Rightarrow> bytes option" where
  "as_bytes16 (U32 v) = None"
| "as_bytes16 (Bytes16 bs) = Some bs"

text \<open>An instance that works: one object whose maps are a function from names to values.\<close>

definition memory_env :: "(unit, string \<Rightarrow> map_value) bpf_env" where
  "memory_env = \<lparr>be_load = \<lambda>obj w. (Inr (), w), be_program = \<lambda>h p. Some None,
     be_prog_load = \<lambda>h p w. (None, w), be_attach = \<lambda>h p iface w. (None, w),
     be_map = \<lambda>h m. Some None, be_set = \<lambda>h m v w. (None, w(m := v)), be_get = \<lambda>h m w. w m\<rparr>"

section \<open>Lemmas\<close>

lemma memory_env_works: "maps_work memory_env"
  by (auto simp: maps_work_def memory_env_def)

lemma memory_env_simps [simp]:
  "set_u32_map memory_env h i m v w = (Ok (), w(m := U32 v))"
  "set_bytes16_map memory_env h i m bs w = (Ok (), w(m := Bytes16 bs))"
  "load_and_attach memory_env i obj prog iface w = (Ok (), w)"
  "be_get memory_env h m w = w m"
  by (simp_all add: memory_env_def set_u32_map_def set_bytes16_map_def set_map_def load_and_attach_def)

lemma set_map_cases:
  assumes "set_map env h i m v w = (r, w')"
  obtains "r = Ok ()" "be_set env h m v w = (None, w')" | e where "r = Err (ArmFailed i e)"
  using assms by (auto simp: set_map_def split: option.splits prod.splits)

lemma set_map_no_panic [panic_free]: "set_map env h i m v w \<noteq> (Panic msg, w')"
  by (auto elim: set_map_cases)

lemma set_u32_no_panic [panic_free]: "set_u32_map env h i m v w \<noteq> (Panic msg, w')"
  by (simp add: set_u32_map_def set_map_no_panic)

lemma set_bytes16_no_panic [panic_free]: "set_bytes16_map env h i m v w \<noteq> (Panic msg, w')"
  by (simp add: set_bytes16_map_def set_map_no_panic)

lemma load_and_attach_no_panic [panic_free]: "load_and_attach env i obj prog iface w \<noteq> (Panic m, w')"
  by (auto simp: load_and_attach_def split: sum.splits option.splits prod.splits)

text \<open>Every failure of the shared helpers is reported as a failure to arm, also on the way to
  disarming.\<close>

lemma set_map_error: "set_map env h i m v w = (Err e, w') \<Longrightarrow> \<exists>t. e = ArmFailed i t"
  by (auto elim: set_map_cases)

lemma set_map_get:
  assumes "maps_work env" and "set_map env h i m v w = (Ok u, w')"
  shows "be_get env h m w' = v" and "m' \<noteq> m \<Longrightarrow> be_get env h m' w' = be_get env h m' w"
proof -
  have "be_set env h m v w = (None, w')" using assms(2) by (auto elim: set_map_cases)
  with assms(1) show "be_get env h m w' = v" "m' \<noteq> m \<Longrightarrow> be_get env h m' w' = be_get env h m' w"
    by (auto simp: maps_work_def)
qed

lemmas set_u32_get = set_map_get [where v = "U32 v" for v, folded set_u32_map_def]
lemmas set_bytes16_get = set_map_get [where v = "Bytes16 v" for v, folded set_bytes16_map_def]

lemma set_map_store:
  assumes "maps_work env" and "set_map env h i m v w = (Ok u, w')"
  shows "be_get env h m w' = v \<and> (\<forall>m'. m' \<noteq> m \<longrightarrow> be_get env h m' w' = be_get env h m' w)"
  using set_map_get [OF assms] by blast

lemmas set_u32_store = set_map_store [where v = "U32 v" for v, folded set_u32_map_def]
lemmas set_bytes16_store = set_map_store [where v = "Bytes16 v" for v, folded set_bytes16_map_def]

end
