(* ===== verification/Xdp_Switch.thy ===== *)
theory Xdp_Switch
  imports Bpf_Util
begin

text \<open>
  What the three XDP injectors have in common: the program stays attached once it is loaded, and one map,
  the switch, decides whether it does anything; arming writes a value into it, disarming writes 0. This
  theory has the life of such an injector next to the traffic, calls and packets in any order, and the
  contract under which a packet is only ever touched while the injector is armed. The injectors
  provide the contract in their own theories.
\<close>

section \<open>Definitions\<close>

text \<open>Documented behaviour of an array map of 32-bit values: it starts at 0 when its object is loaded, a
  failed write changes nothing, and loading and attaching a program do not touch it.\<close>

definition array_map :: "('h, 'w) bpf_env \<Rightarrow> string \<Rightarrow> bool" where
  "array_map env m \<longleftrightarrow>
     (\<forall>obj w h w'. be_load env obj w = (Inr h, w') \<longrightarrow> be_get env h m w' = U32 0)
   \<and> (\<forall>h p w r w'. be_prog_load env h p w = (r, w') \<longrightarrow> be_get env h m w' = be_get env h m w)
   \<and> (\<forall>h p iface w r w'. be_attach env h p iface w = (r, w') \<longrightarrow> be_get env h m w' = be_get env h m w)
   \<and> (\<forall>h m' v w e w'. be_set env h m' v w = (Some e, w') \<longrightarrow> be_get env h m w' = be_get env h m w)"

text \<open>The life of an injector: itself, the world, the program's own counters, and as a history every
  packet with the armed state it met and what became of it.\<close>

record ('i, 'w, 's, 'p, 'v) xdp_life =
  lf_injector :: 'i
  lf_world :: 'w
  lf_state :: 's
  lf_log :: "(bool \<times> 'p \<times> 'v) list"

definition life_init :: "'i \<Rightarrow> 'w \<Rightarrow> 's \<Rightarrow> ('i, 'w, 's, 'p, 'v) xdp_life" where
  "life_init i w st = \<lparr>lf_injector = i, lf_world = w, lf_state = st, lf_log = []\<rparr>"

text \<open>A packet meets the program if one is attached, and passes otherwise.\<close>

definition meets ::
  "('i \<Rightarrow> 'h option) \<Rightarrow> ('h \<Rightarrow> 'w \<Rightarrow> 'p \<Rightarrow> 's \<Rightarrow> 'v \<times> 's) \<Rightarrow> ('p \<Rightarrow> 'v) \<Rightarrow> 'i \<Rightarrow> 'w \<Rightarrow> 'p \<Rightarrow> 's \<Rightarrow> 'v \<times> 's" where
  "meets handle prog pass i w x st = (case handle i of None \<Rightarrow> (pass x, st) | Some h \<Rightarrow> prog h w x st)"

datatype 'p life_event = LifeArm fault_context | LifeDisarm | LifePacket 'p | LifeElsewhere

text \<open>\<open>LifeElsewhere\<close> is anything else that happens in the world and leaves the maps alone.\<close>

inductive life_step ::
  "('h, 'w) bpf_env \<Rightarrow> ('i, 'w) injector_ops \<Rightarrow> ('i \<Rightarrow> 'h option) \<Rightarrow> ('h \<Rightarrow> 'w \<Rightarrow> 'p \<Rightarrow> 's \<Rightarrow> 'v \<times> 's) \<Rightarrow> ('p \<Rightarrow> 'v) \<Rightarrow>
   ('i, 'w, 's, 'p, 'v) xdp_life \<Rightarrow> 'p life_event \<Rightarrow> ('i, 'w, 's, 'p, 'v) xdp_life \<Rightarrow> bool"
  for env :: "('h, 'w) bpf_env" and ops :: "('i, 'w) injector_ops" and handle prog pass where
  arms: "op_arm ops ctx (lf_injector l) (lf_world l) = (r, i, w) \<Longrightarrow>
    life_step env ops handle prog pass l (LifeArm ctx) (l\<lparr>lf_injector := i, lf_world := w\<rparr>)"
| disarms: "op_disarm ops (lf_injector l) (lf_world l) = (r, i, w) \<Longrightarrow>
    life_step env ops handle prog pass l LifeDisarm (l\<lparr>lf_injector := i, lf_world := w\<rparr>)"
| packet: "meets handle prog pass (lf_injector l) (lf_world l) x (lf_state l) = (v, st) \<Longrightarrow>
    life_step env ops handle prog pass l (LifePacket x)
      (l\<lparr>lf_state := st, lf_log := lf_log l @ [(op_is_armed ops (lf_injector l), x, v)]\<rparr>)"
| elsewhere: "(\<And>h m. be_get env h m w = be_get env h m (lf_world l)) \<Longrightarrow>
    life_step env ops handle prog pass l LifeElsewhere (l\<lparr>lf_world := w\<rparr>)"

inductive life_run ::
  "('h, 'w) bpf_env \<Rightarrow> ('i, 'w) injector_ops \<Rightarrow> ('i \<Rightarrow> 'h option) \<Rightarrow> ('h \<Rightarrow> 'w \<Rightarrow> 'p \<Rightarrow> 's \<Rightarrow> 'v \<times> 's) \<Rightarrow> ('p \<Rightarrow> 'v) \<Rightarrow>
   ('i, 'w, 's, 'p, 'v) xdp_life \<Rightarrow> 'p life_event list \<Rightarrow> ('i, 'w, 's, 'p, 'v) xdp_life \<Rightarrow> bool"
  for env :: "('h, 'w) bpf_env" and ops :: "('i, 'w) injector_ops" and handle prog pass l where
  nil: "life_run env ops handle prog pass l [] l"
| snoc: "life_run env ops handle prog pass l es l' \<Longrightarrow> life_step env ops handle prog pass l' e l'' \<Longrightarrow>
    life_run env ops handle prog pass l (es @ [e]) l''"

text \<open>The switch shows the armed state: the value the injector is to write, or 0.\<close>

definition switch_ok ::
  "('h, 'w) bpf_env \<Rightarrow> ('i, 'w) injector_ops \<Rightarrow> ('i \<Rightarrow> 'h option) \<Rightarrow> string \<Rightarrow> ('i \<Rightarrow> u32) \<Rightarrow> 'i \<Rightarrow> 'w \<Rightarrow> bool" where
  "switch_ok env ops handle switch on i w \<longleftrightarrow>
     (case handle i of
        None \<Rightarrow> \<not> op_is_armed ops i
      | Some h \<Rightarrow> be_get env h switch w = U32 (if op_is_armed ops i then on i else 0))"

section \<open>The helpers on the switch\<close>

lemma load_zero:
  assumes "array_map env m" and "load_and_attach env i obj prog iface w = (Ok h, w')"
  shows "be_get env h m w' = U32 0"
  using assms(2) assms(1) [unfolded array_map_def]
  by (auto simp: load_and_attach_def split: sum.splits option.splits prod.splits)

lemma set_map_failed:
  assumes "array_map env m" and "set_map env h i m' v w = (Err e, w')"
  shows "be_get env h m w' = be_get env h m w"
  using assms(2) assms(1) [unfolded array_map_def]
  by (auto simp: set_map_def split: option.splits prod.splits)

text \<open>The switch after any write: only a successful write to itself changes it.\<close>

lemma set_map_switch:
  assumes "maps_work env" and "array_map env m" and "set_map env h i m' v w = (r, w')"
  shows "be_get env h m w' = (if m' = m \<and> is_ok r then v else be_get env h m w)"
proof (cases r)
  case (Ok u)
  with assms(3) set_map_get [OF assms(1)] show ?thesis by auto
next
  case (Err e)
  with assms(3) set_map_failed [OF assms(2)] show ?thesis by simp
next
  case (Panic msg)
  with assms(3) show ?thesis by (simp add: set_map_no_panic)
qed

lemmas set_u32_switch = set_map_switch [where v = "U32 v" for v, folded set_u32_map_def]
lemmas set_bytes16_switch = set_map_switch [where v = "Bytes16 v" for v, folded set_bytes16_map_def]

section \<open>The contract of a switch\<close>

locale map_switch =
  fixes env :: "('h, 'w) bpf_env"
    and ops :: "('i, 'w) injector_ops"
    and handle :: "'i \<Rightarrow> 'h option"
    and switch :: string
    and on :: "'i \<Rightarrow> u32"
    and prog :: "'h \<Rightarrow> 'w \<Rightarrow> 'p \<Rightarrow> 's \<Rightarrow> 'v \<times> 's"
    and pass :: "'p \<Rightarrow> 'v"
  assumes arm_switch: "maps_work env \<Longrightarrow> array_map env switch \<Longrightarrow> switch_ok env ops handle switch on i w \<Longrightarrow>
      op_arm ops c i w = (r, i', w') \<Longrightarrow> switch_ok env ops handle switch on i' w' \<and> on i' = on i"
    and disarm_switch: "maps_work env \<Longrightarrow> array_map env switch \<Longrightarrow> switch_ok env ops handle switch on i w \<Longrightarrow>
      op_disarm ops i w = (r, i', w') \<Longrightarrow> switch_ok env ops handle switch on i' w' \<and> on i' = on i"
    and off_passes: "be_get env h switch w = U32 0 \<Longrightarrow> prog h w x st = (pass x, st)"
begin

abbreviation ok :: "'i \<Rightarrow> 'w \<Rightarrow> bool" where
  "ok \<equiv> switch_ok env ops handle switch on"

lemma switch_step:
  assumes "maps_work env" and "array_map env switch" and "life_step env ops handle prog pass l e l'"
    and "ok (lf_injector l) (lf_world l)"
  shows "ok (lf_injector l') (lf_world l') \<and> on (lf_injector l') = on (lf_injector l)"
  using assms(3)
proof (cases rule: life_step.cases)
  case (arms ctx r i w)
  then show ?thesis using arm_switch [OF assms(1,2,4)] by simp
next
  case (disarms r i w)
  then show ?thesis using disarm_switch [OF assms(1,2,4)] by simp
qed (use assms(4) in \<open>auto simp: switch_ok_def split: option.split\<close>)

lemma switch_run:
  assumes "maps_work env" and "array_map env switch" and "life_run env ops handle prog pass l0 es l"
    and "ok (lf_injector l0) (lf_world l0)"
  shows "ok (lf_injector l) (lf_world l) \<and> on (lf_injector l) = on (lf_injector l0)"
  using assms(3)
proof (induction rule: life_run.induct)
  case (snoc es l' e l'')
  with switch_step [OF assms(1,2) snoc.hyps(2)] show ?case by simp
qed (use assms(4) in simp)

text \<open>A packet that meets the program of an injector that is not armed passes as it is, and so it does
  when the value to write is itself 0.\<close>

lemma meets_off:
  assumes "ok i w" and "\<not> op_is_armed ops i \<or> on i = 0"
  shows "meets handle prog pass i w x st = (pass x, st)"
  using assms off_passes by (auto simp: meets_def switch_ok_def split: option.splits if_splits)

lemma touched_only_while_armed:
  assumes "maps_work env" and "array_map env switch" and "life_run env ops handle prog pass l0 es l"
    and "ok (lf_injector l0) (lf_world l0)" and "lf_log l0 = []"
    and "(armed, x, v) \<in> set (lf_log l)" and "v \<noteq> pass x"
  shows "armed \<and> on (lf_injector l0) \<noteq> 0"
  using assms(3,6,7)
proof (induction rule: life_run.induct)
  case nil
  then show ?case using assms(5) by simp
next
  case (snoc es l' e l'')
  note good = switch_run [OF assms(1,2) snoc.hyps(1) assms(4)]
  from snoc.hyps(2) show ?case
    by (cases rule: life_step.cases) (use snoc.IH snoc.prems good meets_off in \<open>auto\<close>)
qed

end

text \<open>A switch whose value is a modulus: the program counts the packets it meets while the switch is on,
  and does something to the multiples of the modulus only.\<close>

locale counting_switch = map_switch env ops handle switch on prog pass
  for env :: "('h, 'w) bpf_env" and ops :: "('i, 'w) injector_ops" and handle :: "'i \<Rightarrow> 'h option"
    and switch :: string and on :: "'i \<Rightarrow> u32"
    and prog :: "'h \<Rightarrow> 'w \<Rightarrow> 'p \<Rightarrow> u64 \<Rightarrow> 'v \<times> u64" and pass :: "'p \<Rightarrow> 'v" +
  fixes effect :: "'h \<Rightarrow> 'w \<Rightarrow> 'p \<Rightarrow> 'v"
  assumes counts: "be_get env h switch w = U32 n \<Longrightarrow> n \<noteq> 0 \<Longrightarrow> unat c + 1 < 2 ^ 64 \<Longrightarrow>
      prog h w x c = (if Suc (unat c) mod unat n = 0 then effect h w x else pass x, c + 1)"
begin

text \<open>What became of the \<open>k\<close>-th packet met while armed.\<close>

definition fate :: "u32 \<Rightarrow> nat \<Rightarrow> bool \<times> 'p \<times> 'v \<Rightarrow> bool" where
  "fate n k y \<longleftrightarrow> (case y of (armed, x, v) \<Rightarrow>
     if Suc k mod unat n = 0 then \<exists>h w. v = effect h w x else v = pass x)"

lemma meets_armed:
  assumes "ok i w" and "op_is_armed ops i" and "on i = n" and "n \<noteq> 0" and "k + 1 < 2 ^ 64"
    and "meets handle prog pass i w x (of_nat k) = (v, st)"
  shows "st = of_nat (Suc k) \<and> fate n k (True, x, v)"
proof -
  obtain h where h: "handle i = Some h" "be_get env h switch w = U32 n"
    using assms(1-3) by (auto simp: switch_ok_def split: option.splits)
  have k: "unat (of_nat k :: u64) = k" using assms(5) by (intro unat_of_nat_u64) simp
  have "prog h w x (of_nat k) = (if Suc k mod unat n = 0 then effect h w x else pass x, of_nat k + 1)"
    using counts [OF h(2) assms(4), of "of_nat k" x] assms(5) by (simp add: k)
  with assms(6) h(1) show ?thesis by (auto simp: meets_def fate_def) blast
qed

lemma life_counts:
  assumes "maps_work env" and "array_map env switch" and "life_run env ops handle prog pass (life_init i w 0) es l"
    and "ok i w" and "on i \<noteq> 0" and "length (filter fst (lf_log l)) < 2 ^ 64"
  shows "lf_state l = of_nat (length (filter fst (lf_log l)))
    \<and> (\<forall>k < length (filter fst (lf_log l)). fate (on i) k (filter fst (lf_log l) ! k))"
  using assms(3,6)
proof (induction rule: life_run.induct)
  case nil
  then show ?case by (simp add: life_init_def)
next
  case (snoc es l' e l'')
  have good: "ok (lf_injector l') (lf_world l')" "on (lf_injector l') = on i"
    using switch_run [OF assms(1,2) snoc.hyps(1)] assms(4) by (simp_all add: life_init_def)
  let ?k = "length (filter fst (lf_log l'))"
  from snoc.hyps(2) show ?case
  proof (cases rule: life_step.cases)
    case (packet x v st)
    show ?thesis
    proof (cases "op_is_armed ops (lf_injector l')")
      case True
      have k: "?k + 1 < 2 ^ 64" using snoc.prems packet True by simp
      then have IH: "lf_state l' = of_nat ?k" "\<forall>k < ?k. fate (on i) k (filter fst (lf_log l') ! k)"
        using snoc.IH by simp_all
      from meets_armed [OF good(1) True good(2) assms(5) k] packet(3) IH(1)
      have "st = of_nat (Suc ?k)" "fate (on i) ?k (True, x, v)" by simp_all
      with packet True IH(2) show ?thesis by (auto simp: nth_append less_Suc_eq simp del: of_nat_Suc)
    next
      case False
      with meets_off [OF good(1)] packet snoc show ?thesis by auto
    qed
  qed (use snoc in auto)
qed

end

section \<open>A kernel to run on\<close>

text \<open>One object whose maps are zeroed when it is loaded.\<close>

definition zeroing_env :: "(unit, string \<Rightarrow> map_value) bpf_env" where
  "zeroing_env = memory_env\<lparr>be_load := \<lambda>obj w. (Inr (), \<lambda>m. U32 0)\<rparr>"

lemma zeroing_env_works: "maps_work zeroing_env" "array_map zeroing_env m"
  by (auto simp: maps_work_def array_map_def zeroing_env_def memory_env_def)

lemma zeroing_env_simps [simp]:
  "set_u32_map zeroing_env h i m v w = (Ok (), w(m := U32 v))"
  "set_bytes16_map zeroing_env h i m bs w = (Ok (), w(m := Bytes16 bs))"
  "load_and_attach zeroing_env i obj prog iface w = (Ok (), \<lambda>m. U32 0)"
  "be_get zeroing_env h m w = w m"
  by (simp_all add: zeroing_env_def memory_env_def set_u32_map_def set_bytes16_map_def set_map_def load_and_attach_def)

end
