(* ===== verification/Xdp_Pktloss.thy ===== *)
theory Xdp_Pktloss
  imports Xdp_Switch
begin

text \<open>
  Packet loss: the injector of \<^verbatim>\<open>kernel/src/xdp_pktloss.rs\<close> and the program it loads,
  \<^verbatim>\<open>kernel/bpf/xdp_pktloss.c\<close>. The injector only ever writes one modulus into the map
  \<^verbatim>\<open>drop_every_n\<close>; the program counts packets and drops every multiple of it.
\<close>

section \<open>The injector\<close>

text \<open>The object file, the program in it and its maps, by the names userspace has for them.\<close>

definition XDP_PKTLOSS_OBJ :: string where
  [simp]: "XDP_PKTLOSS_OBJ = ''xdp_pktloss.o''"

definition PKTLOSS_PROGRAM_NAME :: string where
  [simp]: "PKTLOSS_PROGRAM_NAME = ''xdp_pktloss''"

definition DROP_EVERY_N_MAP :: string where
  [simp]: "DROP_EVERY_N_MAP = ''drop_every_n''"

record 'h pktloss_injector =
  pl_id :: string
  pl_iface :: string
  pl_drop_every_n :: u32
  pl_bpf :: "'h option"
  pl_armed :: bool

definition XdpPacketLossInjector_new :: "string \<Rightarrow> string \<Rightarrow> u32 \<Rightarrow> 'h pktloss_injector" where
  "XdpPacketLossInjector_new i iface n =
     \<lparr>pl_id = i, pl_iface = iface, pl_drop_every_n = n, pl_bpf = None, pl_armed = False\<rparr>"

definition XdpPacketLossInjector_ensure_loaded ::
  "('h, 'w) bpf_env \<Rightarrow> ('h pktloss_injector, 'w) fault_call" where
  "XdpPacketLossInjector_ensure_loaded env i w =
     (if pl_bpf i \<noteq> None then (Ok (), i, w)
      else case load_and_attach env (pl_id i) XDP_PKTLOSS_OBJ PKTLOSS_PROGRAM_NAME (pl_iface i) w of
        (Err e, w') \<Rightarrow> (Err e, i, w')
      | (Panic m, w') \<Rightarrow> (Panic m, i, w')
      | (Ok bpf, w') \<Rightarrow> (Ok (), i\<lparr>pl_bpf := Some bpf\<rparr>, w'))"

definition XdpPacketLossInjector_arm ::
  "('h, 'w) bpf_env \<Rightarrow> fault_context \<Rightarrow> ('h pktloss_injector, 'w) fault_call" where
  "XdpPacketLossInjector_arm env ctx i w =
     (case XdpPacketLossInjector_ensure_loaded env i w of
        (Err e, i1, w1) \<Rightarrow> (Err e, i1, w1)
      | (Panic m, i1, w1) \<Rightarrow> (Panic m, i1, w1)
      | (Ok u, i1, w1) \<Rightarrow>
          (case pl_bpf i1 of
             None \<Rightarrow> (Panic ''just loaded above'', i1, w1)
           | Some bpf \<Rightarrow>
               (case set_u32_map env bpf (pl_id i1) DROP_EVERY_N_MAP (pl_drop_every_n i1) w1 of
                  (Err e, w2) \<Rightarrow> (Err e, i1, w2)
                | (Panic m, w2) \<Rightarrow> (Panic m, i1, w2)
                | (Ok u, w2) \<Rightarrow> (Ok (), i1\<lparr>pl_armed := True\<rparr>, w2))))"

definition XdpPacketLossInjector_disarm :: "('h, 'w) bpf_env \<Rightarrow> ('h pktloss_injector, 'w) fault_call" where
  "XdpPacketLossInjector_disarm env i w =
     (case pl_bpf i of
        None \<Rightarrow> (Ok (), i\<lparr>pl_armed := False\<rparr>, w)
      | Some bpf \<Rightarrow>
          (case set_u32_map env bpf (pl_id i) DROP_EVERY_N_MAP 0 w of
             (Err e, w') \<Rightarrow> (Err e, i, w')
           | (Panic m, w') \<Rightarrow> (Panic m, i, w')
           | (Ok u, w') \<Rightarrow> (Ok (), i\<lparr>pl_armed := False\<rparr>, w')))"

definition pktloss_ops :: "('h, 'w) bpf_env \<Rightarrow> ('h pktloss_injector, 'w) injector_ops" where
  "pktloss_ops env = \<lparr>op_id = pl_id, op_arm = XdpPacketLossInjector_arm env,
     op_disarm = XdpPacketLossInjector_disarm env, op_is_armed = pl_armed\<rparr>"

section \<open>The program\<close>

text \<open>A map lookup returns a pointer, or null.\<close>

record pktloss_maps =
  drop_every_n :: "u32 option"
  packet_count :: "u64 option"

definition xdp_pktloss :: "pktloss_maps \<Rightarrow> xdp_action \<times> pktloss_maps" where
  "xdp_pktloss m =
     (case drop_every_n m of
        None \<Rightarrow> (XDP_PASS, m)
      | Some n \<Rightarrow>
          if n = 0 then (XDP_PASS, m)
          else (case packet_count m of
                  None \<Rightarrow> (XDP_PASS, m)
                | Some count \<Rightarrow>
                    let c = count + 1
                    in (if c mod ucast n = 0 then XDP_DROP else XDP_PASS, m\<lparr>packet_count := Some c\<rparr>)))"

text \<open>A sequence of packets, with userspace rewriting the modulus in between.\<close>

datatype pktloss_event = Packet | Configure u32

fun xdp_pktloss_run :: "pktloss_event list \<Rightarrow> pktloss_maps \<Rightarrow> xdp_action list \<times> pktloss_maps" where
  "xdp_pktloss_run [] m = ([], m)"
| "xdp_pktloss_run (Packet # es) m =
     (case xdp_pktloss m of (v, m1) \<Rightarrow> (case xdp_pktloss_run es m1 of (vs, m2) \<Rightarrow> (v # vs, m2)))"
| "xdp_pktloss_run (Configure n # es) m = xdp_pktloss_run es (m\<lparr>drop_every_n := Some n\<rparr>)"

section \<open>The contract\<close>

lemmas pktloss_defs =
  XdpPacketLossInjector_arm_def XdpPacketLossInjector_ensure_loaded_def XdpPacketLossInjector_disarm_def

interpretation pktloss: idempotent_injector "pktloss_ops env" for env
proof (rule idempotent_injectorI [where ready = "\<lambda>i. pl_bpf i \<noteq> None"], unfold pktloss_ops_def injector_ops.simps, goal_cases)
  case (1 c i w r i' w')
  then show ?case
    by (auto simp: pktloss_defs panic_free split: if_splits option.splits prod.splits outcome.splits)
next
  case (2 c i w)
  then show ?case
    by (auto simp: pktloss_defs panic_free split: option.splits prod.splits outcome.splits)
next
  case (3 i w r i' w')
  then show ?case
    by (auto simp: pktloss_defs panic_free split: option.splits prod.splits outcome.splits)
next
  case (4 i w)
  then show ?case
    by (auto simp: pktloss_defs panic_free split: option.splits prod.splits outcome.splits)
qed

lemma pktloss_arm_map:
  assumes "maps_work env" and "XdpPacketLossInjector_arm env ctx i w = (Ok u, i', w')"
  shows "\<exists>h. pl_bpf i' = Some h \<and> be_get env h ''drop_every_n'' w' = U32 (pl_drop_every_n i)"
  using assms(2)
  by (auto simp: pktloss_defs panic_free split: if_splits option.splits prod.splits outcome.splits
      dest: set_u32_get(1) [OF assms(1)])

lemma pktloss_disarm_map:
  assumes "maps_work env" and "XdpPacketLossInjector_disarm env i w = (Ok u, i', w')" and "pl_bpf i = Some h"
  shows "be_get env h ''drop_every_n'' w' = U32 0"
  using assms(2,3)
  by (auto simp: pktloss_defs panic_free split: prod.splits outcome.splits dest: set_u32_get(1) [OF assms(1)])

section \<open>Counting\<close>

lemma counted_packet:
  assumes "n \<noteq> 0" and "unat c + 1 < 2 ^ 64"
  shows "xdp_pktloss \<lparr>drop_every_n = Some n, packet_count = Some c\<rparr> =
    (if Suc (unat c) mod unat n = 0 then XDP_DROP else XDP_PASS,
     \<lparr>drop_every_n = Some n, packet_count = Some (c + 1)\<rparr>)"
proof -
  have "unat (c + 1) = Suc (unat c)" using unat_add_no_wrap [of c 1] assms(2) by simp
  then have "unat ((c + 1) mod ucast n) = Suc (unat c) mod unat n" by (simp add: unat_mod)
  then have "(c + 1) mod ucast n = 0 \<longleftrightarrow> Suc (unat c) mod unat n = 0" by (metis unat_eq_0)
  with assms(1) show ?thesis by (simp add: xdp_pktloss_def)
qed

lemma pktloss_run_packets:
  assumes "n \<noteq> 0" and "unat c + k < 2 ^ 64"
  shows "xdp_pktloss_run (replicate k Packet) \<lparr>drop_every_n = Some n, packet_count = Some c\<rparr> =
    (map (\<lambda>j. if (unat c + Suc j) mod unat n = 0 then XDP_DROP else XDP_PASS) [0..<k],
     \<lparr>drop_every_n = Some n, packet_count = Some (c + of_nat k)\<rparr>)"
  using assms(2)
proof (induction k arbitrary: c)
  case (Suc k)
  have c: "unat (c + 1) = Suc (unat c)" using unat_add_no_wrap [of c 1] Suc.prems by simp
  then have "unat (c + 1) + k < 2 ^ 64" using Suc.prems by simp
  from Suc.IH [OF this] counted_packet [OF assms(1)] Suc.prems c show ?case
    by (simp add: map_upt_Suc add.assoc del: upt_Suc)
qed simp

lemma count_multiples:
  "length (filter (\<lambda>j. (c + Suc j) mod n = 0) [0..<k]) = (c + k) div n - c div (n :: nat)"
proof (induction k)
  case (Suc k)
  have "c div n \<le> (c + k) div n" by (simp add: div_le_mono)
  with Suc show ?case by (simp add: div_Suc)
qed simp

lemma pktloss_run_exact:
  assumes "unat c + k < 2 ^ 64"
    and "xdp_pktloss_run (replicate k Packet) \<lparr>drop_every_n = Some n, packet_count = Some c\<rparr> = (vs, m)"
  shows "length vs = k
     \<and> (\<forall>j < k. vs ! j = XDP_DROP \<longleftrightarrow> n \<noteq> 0 \<and> (unat c + j + 1) mod unat n = 0)
     \<and> length (filter (\<lambda>v. v = XDP_DROP) vs) = (if n = 0 then 0 else (unat c + k) div unat n - unat c div unat n)
     \<and> packet_count m = Some (if n = 0 then c else c + of_nat k)"
proof (cases "n = 0")
  case True
  have "xdp_pktloss_run (replicate k Packet) \<lparr>drop_every_n = Some 0, packet_count = Some c\<rparr>
      = (replicate k XDP_PASS, \<lparr>drop_every_n = Some 0, packet_count = Some c\<rparr>)"
    by (induction k) (simp_all add: xdp_pktloss_def)
  with assms(2) True show ?thesis by auto
next
  case False
  note run = pktloss_run_packets [OF False assms(1)]
  have "filter (\<lambda>v. v = XDP_DROP) (map (\<lambda>j. if P j then XDP_DROP else XDP_PASS) xs)
      = map (\<lambda>_. XDP_DROP) (filter P xs)" for P and xs :: "nat list"
    by (induction xs) auto
  then have "length (filter (\<lambda>v. v = XDP_DROP) vs) = (unat c + k) div unat n - unat c div unat n"
    using assms(2) run count_multiples [of "unat c" "unat n" k] by auto
  with assms(2) run False show ?thesis by (auto split: if_splits)
qed

text \<open>What the program finds in its maps once the injector has configured them, with \<open>c\<close> packets
  counted so far.\<close>

definition pktloss_view :: "('h, 'w) bpf_env \<Rightarrow> 'h \<Rightarrow> u64 \<Rightarrow> 'w \<Rightarrow> pktloss_maps" where
  "pktloss_view env h c w = \<lparr>drop_every_n = as_u32 (be_get env h ''drop_every_n'' w), packet_count = Some c\<rparr>"

section \<open>The life of an injector\<close>

text \<open>One packet, with the count kept by the program; its contents do not matter.\<close>

definition pktloss_meets :: "('h, 'w) bpf_env \<Rightarrow> 'h \<Rightarrow> 'w \<Rightarrow> bytes \<Rightarrow> u64 \<Rightarrow> xdp_action \<times> u64" where
  "pktloss_meets env h w pkt c =
     (case xdp_pktloss (pktloss_view env h c w) of
        (v, m) \<Rightarrow> (v, case packet_count m of None \<Rightarrow> c | Some c' \<Rightarrow> c'))"

interpretation pktloss_switch: counting_switch env "pktloss_ops env" pl_bpf DROP_EVERY_N_MAP pl_drop_every_n
  "pktloss_meets env" "\<lambda>pkt. XDP_PASS" "\<lambda>h w pkt. XDP_DROP" for env
proof (unfold_locales, goal_cases)
  case (1 i w c r i' w')
  then show ?case
    by (auto simp: pktloss_defs pktloss_ops_def switch_ok_def panic_free
        split: if_splits option.splits prod.splits outcome.splits
        dest!: set_u32_switch [OF 1(1,2)] load_zero [OF 1(2)])
next
  case (2 i w r i' w')
  then show ?case
    by (auto simp: pktloss_defs pktloss_ops_def switch_ok_def panic_free
        split: if_splits option.splits prod.splits outcome.splits
        dest!: set_u32_switch [OF 2(1,2)])
next
  case (3 h w x st)
  then show ?case by (simp add: pktloss_meets_def pktloss_view_def xdp_pktloss_def)
next
  case (4 h w n c x)
  then show ?case using counted_packet [OF 4(2,3)] by (simp add: pktloss_meets_def pktloss_view_def)
qed

text \<open>
  The loss is exact, from the injector's configuration to the verdicts. Once an injector with
  modulus \<open>n\<close> is armed, and with \<open>c\<close> packets counted before, the next \<open>k\<close> packets are dropped exactly
  at the multiples of \<open>n\<close> of the running count, which makes \<open>(c + k) div n - c div n\<close> losses; with
  modulus 0 every packet passes and none is counted.
\<close>

lemma pktloss_exact:
  assumes "maps_work env" and "XdpPacketLossInjector_arm env ctx i w = (Ok u, i', w')"
    and "pl_bpf i' = Some h" and "n = pl_drop_every_n i" and "unat c + k < 2 ^ 64"
    and "xdp_pktloss_run (replicate k Packet) (pktloss_view env h c w') = (vs, m)"
  shows "length vs = k
     \<and> (\<forall>j < k. vs ! j = XDP_DROP \<longleftrightarrow> n \<noteq> 0 \<and> (unat c + j + 1) mod unat n = 0)
     \<and> length (filter (\<lambda>v. v = XDP_DROP) vs) = (if n = 0 then 0 else (unat c + k) div unat n - unat c div unat n)
     \<and> packet_count m = Some (if n = 0 then c else c + of_nat k)"
proof -
  have "pktloss_view env h c w' = \<lparr>drop_every_n = Some n, packet_count = Some c\<rparr>"
    using pktloss_arm_map [OF assms(1,2)] assms(3,4) by (simp add: pktloss_view_def)
  with pktloss_run_exact [OF assms(5)] assms(6) show ?thesis by simp
qed

text \<open>
  Arming puts the configured modulus where the program reads it, disarming puts 0 there, so an
  armed injector loses exactly every \<open>n\<close>-th packet and a disarmed one none.
\<close>

lemma pktloss_arm_disarm_effect:
  assumes "maps_work env"
    and "XdpPacketLossInjector_arm env ctx i w = (Ok u, i1, w1)"
    and "XdpPacketLossInjector_disarm env i1 w2 = (Ok u', i2, w3)"
  shows "\<exists>h. pl_bpf i1 = Some h \<and> pl_bpf i2 = Some h
     \<and> be_get env h ''drop_every_n'' w1 = U32 (pl_drop_every_n i)
     \<and> be_get env h ''drop_every_n'' w3 = U32 0"
proof -
  obtain h where h: "pl_bpf i1 = Some h" "be_get env h ''drop_every_n'' w1 = U32 (pl_drop_every_n i)"
    using pktloss_arm_map [OF assms(1,2)] by blast
  moreover have "pl_bpf i2 = Some h"
    using assms(3) h(1) by (auto simp: pktloss_defs split: prod.splits outcome.splits)
  ultimately show ?thesis using pktloss_disarm_map [OF assms(1,3) h(1)] by blast
qed

section \<open>Properties\<close>

text \<open>What a life has seen while armed, and the losses in it.\<close>

lemma pktloss_new_switch:
  "switch_ok env (pktloss_ops env) pl_bpf DROP_EVERY_N_MAP pl_drop_every_n (XdpPacketLossInjector_new i iface n) w"
  by (simp add: switch_ok_def XdpPacketLossInjector_new_def pktloss_ops_def)

lemma pktloss_new_every_n [simp]: "pl_drop_every_n (XdpPacketLossInjector_new i iface n) = n"
  by (simp add: XdpPacketLossInjector_new_def)

lemma filter_drop_seen:
  assumes "\<forall>(armed, pkt, v) \<in> set log. \<not> armed \<longrightarrow> v = XDP_PASS"
  shows "length (filter (\<lambda>(armed, pkt, v). v = XDP_DROP) log)
    = length (filter (\<lambda>v. v = XDP_DROP) (map (\<lambda>(armed, pkt, v). v) (filter fst log)))"
  using assms by (induction log) auto

text \<open>A life to look at, with modulus 2: the injector is disarmed between the first and the second packet
  it counts.\<close>

abbreviation demo_life ::
  "unit option \<Rightarrow> bool \<Rightarrow> (string \<Rightarrow> map_value) \<Rightarrow> u64 \<Rightarrow> (bool \<times> bytes \<times> xdp_action) list \<Rightarrow>
   (unit pktloss_injector, string \<Rightarrow> map_value, u64, bytes, xdp_action) xdp_life" where
  "demo_life h armed w c xs \<equiv>
     \<lparr>lf_injector = \<lparr>pl_id = ''loss'', pl_iface = ''lo'', pl_drop_every_n = 2, pl_bpf = h, pl_armed = armed\<rparr>,
      lf_world = w, lf_state = c, lf_log = xs\<rparr>"

abbreviation demo_life_step where
  "demo_life_step \<equiv> life_step zeroing_env (pktloss_ops zeroing_env) pl_bpf (pktloss_meets zeroing_env) (\<lambda>pkt. XDP_PASS)"

abbreviation maps_off :: "string \<Rightarrow> map_value" where
  "maps_off \<equiv> \<lambda>m. U32 0"

abbreviation maps_on :: "string \<Rightarrow> map_value" where
  "maps_on \<equiv> maps_off(''drop_every_n'' := U32 2)"

lemma demo_life_calls:
  "demo_life_step (demo_life None False w c xs) (LifeArm ctx) (demo_life (Some ()) True maps_on c xs)"
  "demo_life_step (demo_life (Some ()) False maps_off c xs) (LifeArm ctx) (demo_life (Some ()) True maps_on c xs)"
  "demo_life_step (demo_life (Some ()) True maps_on c xs) LifeDisarm (demo_life (Some ()) False maps_off c xs)"
proof -
  let ?i = "\<lambda>h armed. lf_injector (demo_life h armed w c xs)"
  have "op_arm (pktloss_ops zeroing_env) ctx (?i None False) w = (Ok (), ?i (Some ()) True, maps_on)"
    by (simp add: pktloss_ops_def pktloss_defs)
  then show "demo_life_step (demo_life None False w c xs) (LifeArm ctx) (demo_life (Some ()) True maps_on c xs)"
    using life_step.arms [where l = "demo_life None False w c xs"] by simp
  have "op_arm (pktloss_ops zeroing_env) ctx (?i (Some ()) False) maps_off = (Ok (), ?i (Some ()) True, maps_on)"
    by (simp add: pktloss_ops_def pktloss_defs)
  then show "demo_life_step (demo_life (Some ()) False maps_off c xs) (LifeArm ctx) (demo_life (Some ()) True maps_on c xs)"
    using life_step.arms [where l = "demo_life (Some ()) False maps_off c xs"] by simp
  have "op_disarm (pktloss_ops zeroing_env) (?i (Some ()) True) maps_on = (Ok (), ?i (Some ()) False, maps_off)"
    by (simp add: pktloss_ops_def pktloss_defs fun_eq_iff)
  then show "demo_life_step (demo_life (Some ()) True maps_on c xs) LifeDisarm (demo_life (Some ()) False maps_off c xs)"
    using life_step.disarms [where l = "demo_life (Some ()) True maps_on c xs"] by simp
qed

lemma demo_life_packet:
  assumes "meets pl_bpf (pktloss_meets zeroing_env) (\<lambda>pkt. XDP_PASS) (lf_injector (demo_life h armed w c xs)) w pkt c = (v, c')"
  shows "demo_life_step (demo_life h armed w c xs) (LifePacket pkt) (demo_life h armed w c' (xs @ [(armed, pkt, v)]))"
  using life_step.packet [where l = "demo_life h armed w c xs" and env = zeroing_env and ops = "pktloss_ops zeroing_env"
      and handle = pl_bpf and prog = "pktloss_meets zeroing_env" and pass = "\<lambda>pkt. XDP_PASS" and x = pkt and v = v] assms
  by (simp add: pktloss_ops_def)

lemma demo_life_run:
  "life_run zeroing_env (pktloss_ops zeroing_env) pl_bpf (pktloss_meets zeroing_env) (\<lambda>pkt. XDP_PASS)
     (life_init (XdpPacketLossInjector_new ''loss'' ''lo'' 2) (\<lambda>m. U32 7) 0)
     [LifePacket [], LifeArm ctx, LifePacket [1], LifeDisarm, LifePacket [2], LifeArm ctx, LifePacket [3]]
     (demo_life (Some ()) True maps_on 2
       [(False, [], XDP_PASS), (True, [1], XDP_PASS), (False, [2], XDP_PASS), (True, [3], XDP_DROP)])"
proof -
  note eval = meets_def pktloss_meets_def pktloss_view_def xdp_pktloss_def
  have init: "life_init (XdpPacketLossInjector_new ''loss'' ''lo'' 2) (\<lambda>m. U32 7) 0 = demo_life None False (\<lambda>m. U32 7) 0 []"
    by (simp add: life_init_def XdpPacketLossInjector_new_def)
  note p0 = demo_life_packet [where h = None and armed = False and w = "\<lambda>m. U32 7" and c = 0 and xs = "[]" and pkt = "[]"
      and v = XDP_PASS and c' = 0]
  note p1 = demo_life_packet [where h = "Some ()" and armed = True and w = maps_on and c = 0 and pkt = "[1]"
      and v = XDP_PASS and c' = 1]
  note p2 = demo_life_packet [where h = "Some ()" and armed = False and w = maps_off and c = 1 and pkt = "[2]"
      and v = XDP_PASS and c' = 1]
  note p3 = demo_life_packet [where h = "Some ()" and armed = True and w = maps_on and c = 1 and pkt = "[3]"
      and v = XDP_DROP and c' = 2]
  note r2 = life_run.snoc [OF life_run.snoc [OF life_run.nil p0] demo_life_calls(1) [where ctx = ctx]]
  note r4 = life_run.snoc [OF life_run.snoc [OF r2 p1] demo_life_calls(3)]
  note r6 = life_run.snoc [OF life_run.snoc [OF r4 p2] demo_life_calls(2) [where ctx = ctx]]
  from life_run.snoc [OF r6 p3] show ?thesis unfolding init by (simp add: eval)
qed

text \<open>
  C18: the loss is exact over the whole life of an injector. However arming, disarming, traffic and the
  rest of the world interleave, and whichever calls fail, a packet that meets the injector while it is
  not armed passes, and of the packets it meets while armed exactly those at the multiples of its
  modulus are dropped, the count going on through every disarming: \<open>k\<close> packets make \<open>k div n\<close> losses.
\<close>

theorem pktloss_life_exact:
  assumes "maps_work env" and "array_map env ''drop_every_n''"
    and "life_run env (pktloss_ops env) pl_bpf (pktloss_meets env) (\<lambda>pkt. XDP_PASS)
      (life_init (XdpPacketLossInjector_new i iface n) w 0) es l"
    and "seen = filter (\<lambda>(armed, pkt, v). armed) (lf_log l)" and "length seen < 2 ^ 64"
  shows "(\<forall>(armed, pkt, v) \<in> set (lf_log l). \<not> armed \<longrightarrow> v = XDP_PASS)
    \<and> map (\<lambda>(armed, pkt, v). v) seen
      = map (\<lambda>k. if n \<noteq> 0 \<and> Suc k mod unat n = 0 then XDP_DROP else XDP_PASS) [0..<length seen]
    \<and> length (filter (\<lambda>(armed, pkt, v). v = XDP_DROP) (lf_log l)) = length seen div unat n"
proof -
  have seen: "seen = filter fst (lf_log l)" unfolding assms(4) by (rule filter_cong) auto
  have map: "array_map env DROP_EVERY_N_MAP" using assms(2) by simp
  have touched: "armed \<and> n \<noteq> 0" if "(armed, pkt, v) \<in> set (lf_log l)" "v \<noteq> XDP_PASS" for armed pkt v
    using pktloss_switch.touched_only_while_armed [OF assms(1) map assms(3) _ _ that] pktloss_new_switch [of env i iface n w]
    by (simp add: life_init_def)
  have "snd (snd (seen ! k)) = (if n \<noteq> 0 \<and> Suc k mod unat n = 0 then XDP_DROP else XDP_PASS)"
    if k: "k < length seen" for k
  proof (cases "n = 0")
    case True
    have "seen ! k \<in> set (lf_log l)" using k seen by (metis nth_mem filter_is_subset subsetD)
    then show ?thesis using touched True by (metis prod.collapse)
  next
    case False
    with pktloss_switch.life_counts [OF assms(1) map assms(3) pktloss_new_switch] assms(5) k seen
    show ?thesis by (auto simp: pktloss_switch.fate_def split_def split: if_splits)
  qed
  then have verdicts: "map (\<lambda>(armed, pkt, v). v) seen
      = map (\<lambda>k. if n \<noteq> 0 \<and> Suc k mod unat n = 0 then XDP_DROP else XDP_PASS) [0..<length seen]"
    by (intro nth_equalityI) (simp_all add: split_def)
  have pass: "\<forall>(armed, pkt, v) \<in> set (lf_log l). \<not> armed \<longrightarrow> v = XDP_PASS" using touched by blast
  have "length (filter (\<lambda>v. v = XDP_DROP) (map (\<lambda>k. if n \<noteq> 0 \<and> Suc k mod unat n = 0 then XDP_DROP else XDP_PASS) [0..<m]))
      = m div unat n" for m
    using count_multiples [of 0 "unat n" m] by (cases "n = 0") (simp_all add: filter_map comp_def if_distrib cong: if_cong)
  with pass verdicts filter_drop_seen [OF pass] seen show ?thesis by metis
qed

theorem pktloss_life_exact_witness:
  "let log = [(False, [], XDP_PASS), (True, [1], XDP_PASS), (False, [2], XDP_PASS), (True, [3 :: u8], XDP_DROP)];
       seen = filter (\<lambda>(armed, pkt, v). armed) log
   in (\<forall>(armed, pkt, v) \<in> set log. \<not> armed \<longrightarrow> v = XDP_PASS)
      \<and> length (filter (\<lambda>(armed, pkt, v). v = XDP_DROP) log) = length seen div unat (2 :: u32)"
  using pktloss_life_exact [OF zeroing_env_works(1) zeroing_env_works(2) demo_life_run
      [of "\<lparr>ctx_clock = SystemClock, ctx_seed = 1\<rparr>"] refl]
  unfolding Let_def by simp

end
