(* ===== verification/Xdp_Corrupt.thy ===== *)
theory Xdp_Corrupt
  imports Xdp_Switch
begin

text \<open>
  Byte corruption: the injector of \<^verbatim>\<open>kernel/src/xdp_corrupt.rs\<close> and the program it loads,
  \<^verbatim>\<open>kernel/bpf/xdp_corrupt.c\<close>. Offset and mask are written once, when the program is loaded;
  arming and disarming only write the modulus. The program works on the packet's bytes in place.
\<close>

unbundle bit_operations_syntax

section \<open>The injector\<close>

text \<open>The object file, the program in it and its maps, by the names userspace has for them.\<close>

definition XDP_CORRUPT_OBJ :: string where
  [simp]: "XDP_CORRUPT_OBJ = ''xdp_corrupt.o''"

definition CORRUPT_PROGRAM_NAME :: string where
  [simp]: "CORRUPT_PROGRAM_NAME = ''xdp_corrupt''"

definition EVERY_N_MAP :: string where
  [simp]: "EVERY_N_MAP = ''corrupt_every_n''"

definition OFFSET_MAP :: string where
  [simp]: "OFFSET_MAP = ''corrupt_offset''"

definition MASK_MAP :: string where
  [simp]: "MASK_MAP = ''corrupt_mask''"

record 'h corruption_injector =
  cr_id :: string
  cr_iface :: string
  cr_corrupt_every_n :: u32
  cr_offset :: u32
  cr_mask :: u8
  cr_bpf :: "'h option"
  cr_armed :: bool

definition XdpCorruptionInjector_new :: "string \<Rightarrow> string \<Rightarrow> u32 \<Rightarrow> u32 \<Rightarrow> u8 \<Rightarrow> 'h corruption_injector" where
  "XdpCorruptionInjector_new i iface n off msk =
     \<lparr>cr_id = i, cr_iface = iface, cr_corrupt_every_n = n, cr_offset = off, cr_mask = msk,
      cr_bpf = None, cr_armed = False\<rparr>"

definition XdpCorruptionInjector_ensure_loaded ::
  "('h, 'w) bpf_env \<Rightarrow> ('h corruption_injector, 'w) fault_call" where
  "XdpCorruptionInjector_ensure_loaded env i w =
     (if cr_bpf i \<noteq> None then (Ok (), i, w)
      else case load_and_attach env (cr_id i) XDP_CORRUPT_OBJ CORRUPT_PROGRAM_NAME (cr_iface i) w of
        (Err e, w1) \<Rightarrow> (Err e, i, w1)
      | (Panic m, w1) \<Rightarrow> (Panic m, i, w1)
      | (Ok bpf, w1) \<Rightarrow>
          let i1 = i\<lparr>cr_bpf := Some bpf\<rparr>
          in case set_u32_map env bpf (cr_id i) OFFSET_MAP (cr_offset i) w1 of
               (Err e, w2) \<Rightarrow> (Err e, i1, w2)
             | (Panic m, w2) \<Rightarrow> (Panic m, i1, w2)
             | (Ok u, w2) \<Rightarrow>
                 (case set_u32_map env bpf (cr_id i) MASK_MAP (ucast (cr_mask i)) w2 of
                    (Err e, w3) \<Rightarrow> (Err e, i1, w3)
                  | (Panic m, w3) \<Rightarrow> (Panic m, i1, w3)
                  | (Ok u, w3) \<Rightarrow> (Ok (), i1, w3)))"

definition XdpCorruptionInjector_arm ::
  "('h, 'w) bpf_env \<Rightarrow> fault_context \<Rightarrow> ('h corruption_injector, 'w) fault_call" where
  "XdpCorruptionInjector_arm env ctx i w =
     (case XdpCorruptionInjector_ensure_loaded env i w of
        (Err e, i1, w1) \<Rightarrow> (Err e, i1, w1)
      | (Panic m, i1, w1) \<Rightarrow> (Panic m, i1, w1)
      | (Ok u, i1, w1) \<Rightarrow>
          (case cr_bpf i1 of
             None \<Rightarrow> (Panic ''just loaded above'', i1, w1)
           | Some bpf \<Rightarrow>
               (case set_u32_map env bpf (cr_id i1) EVERY_N_MAP (cr_corrupt_every_n i1) w1 of
                  (Err e, w2) \<Rightarrow> (Err e, i1, w2)
                | (Panic m, w2) \<Rightarrow> (Panic m, i1, w2)
                | (Ok u, w2) \<Rightarrow> (Ok (), i1\<lparr>cr_armed := True\<rparr>, w2))))"

definition XdpCorruptionInjector_disarm :: "('h, 'w) bpf_env \<Rightarrow> ('h corruption_injector, 'w) fault_call" where
  "XdpCorruptionInjector_disarm env i w =
     (case cr_bpf i of
        None \<Rightarrow> (Ok (), i\<lparr>cr_armed := False\<rparr>, w)
      | Some bpf \<Rightarrow>
          (case set_u32_map env bpf (cr_id i) EVERY_N_MAP 0 w of
             (Err e, w') \<Rightarrow> (Err e, i, w')
           | (Panic m, w') \<Rightarrow> (Panic m, i, w')
           | (Ok u, w') \<Rightarrow> (Ok (), i\<lparr>cr_armed := False\<rparr>, w')))"

definition corrupt_ops :: "('h, 'w) bpf_env \<Rightarrow> ('h corruption_injector, 'w) injector_ops" where
  "corrupt_ops env = \<lparr>op_id = cr_id, op_arm = XdpCorruptionInjector_arm env,
     op_disarm = XdpCorruptionInjector_disarm env, op_is_armed = cr_armed\<rparr>"

section \<open>The program\<close>

record corrupt_maps =
  corrupt_every_n :: "u32 option"
  corrupt_offset :: "u32 option"
  corrupt_mask :: "u32 option"
  corrupt_count :: "u64 option"

definition xdp_corrupt :: "corrupt_maps \<Rightarrow> bytes \<Rightarrow> xdp_action \<times> corrupt_maps \<times> bytes" where
  "xdp_corrupt m pkt =
     (case corrupt_every_n m of
        None \<Rightarrow> (XDP_PASS, m, pkt)
      | Some n \<Rightarrow>
          if n = 0 then (XDP_PASS, m, pkt)
          else (case corrupt_count m of
                  None \<Rightarrow> (XDP_PASS, m, pkt)
                | Some count \<Rightarrow>
                    let c = count + 1;
                        m1 = m\<lparr>corrupt_count := Some c\<rparr>
                    in if c mod ucast n \<noteq> 0 then (XDP_PASS, m1, pkt)
                       else (case (corrupt_offset m, corrupt_mask m) of
                               (Some offset, Some msk) \<Rightarrow>
                                 let off = unat (offset AND 0xFFF)
                                 in if length pkt < off + 1 then (XDP_PASS, m1, pkt)
                                    else (XDP_PASS, m1, pkt[off := pkt ! off XOR ucast msk])
                             | _ \<Rightarrow> (XDP_PASS, m1, pkt))))"

fun xdp_corrupt_run :: "bytes list \<Rightarrow> corrupt_maps \<Rightarrow> bytes list \<times> corrupt_maps" where
  "xdp_corrupt_run [] m = ([], m)"
| "xdp_corrupt_run (pkt # pkts) m =
     (case xdp_corrupt m pkt of
        (v, m1, pkt') \<Rightarrow> (case xdp_corrupt_run pkts m1 of (pkts', m2) \<Rightarrow> (pkt' # pkts', m2)))"

section \<open>The contract\<close>

lemmas corrupt_defs =
  XdpCorruptionInjector_arm_def XdpCorruptionInjector_ensure_loaded_def XdpCorruptionInjector_disarm_def

interpretation corruption: idempotent_injector "corrupt_ops env" for env
proof (rule idempotent_injectorI [where ready = "\<lambda>i. cr_bpf i \<noteq> None"], unfold corrupt_ops_def injector_ops.simps, goal_cases)
  case (1 c i w r i' w')
  then show ?case
    by (auto simp: corrupt_defs panic_free Let_def split: if_splits option.splits prod.splits outcome.splits)
next
  case (2 c i w)
  then show ?case
    by (auto simp: corrupt_defs panic_free split: option.splits prod.splits outcome.splits)
next
  case (3 i w r i' w')
  then show ?case
    by (auto simp: corrupt_defs panic_free split: option.splits prod.splits outcome.splits)
next
  case (4 i w)
  then show ?case
    by (auto simp: corrupt_defs panic_free split: option.splits prod.splits outcome.splits)
qed

section \<open>One packet\<close>

lemma offset_mask: "unat (x AND (0xFFF :: u32)) = unat x mod 4096"
proof -
  have "x AND 0xFFF = take_bit 12 x" by (simp add: take_bit_eq_mask mask_eq_exp_minus_1)
  then show ?thesis by (simp add: take_bit_eq_mod unat_mod)
qed

text \<open>The packet that comes out: at most the one byte is different.\<close>

definition corrupted :: "nat \<Rightarrow> u8 \<Rightarrow> bool \<Rightarrow> bytes \<Rightarrow> bytes" where
  "corrupted pos msk hit pkt = (if hit \<and> pos < length pkt then pkt[pos := pkt ! pos XOR msk] else pkt)"

lemma corrupted_involution [simp]: "corrupted pos msk hit (corrupted pos msk hit pkt) = pkt"
  by (auto simp: corrupted_def xor.assoc)

lemma length_corrupted [simp]: "length (corrupted pos msk hit pkt) = length pkt"
  by (simp add: corrupted_def)

lemma corrupted_nth:
  "q < length pkt \<Longrightarrow> corrupted pos msk hit pkt ! q = (if hit \<and> q = pos then pkt ! q XOR msk else pkt ! q)"
  by (auto simp: corrupted_def nth_list_update)

lemma corrupt_packet:
  assumes "n \<noteq> 0" and "unat c + 1 < 2 ^ 64"
  shows "xdp_corrupt \<lparr>corrupt_every_n = Some n, corrupt_offset = Some off, corrupt_mask = Some msk, corrupt_count = Some c\<rparr> pkt =
    (XDP_PASS,
     \<lparr>corrupt_every_n = Some n, corrupt_offset = Some off, corrupt_mask = Some msk, corrupt_count = Some (c + 1)\<rparr>,
     corrupted (unat off mod 4096) (ucast msk) (Suc (unat c) mod unat n = 0) pkt)"
proof -
  have "unat (c + 1) = Suc (unat c)" using unat_add_no_wrap [of c 1] assms(2) by simp
  then have "unat ((c + 1) mod ucast n) = Suc (unat c) mod unat n" by (simp add: unat_mod)
  then have "(c + 1) mod ucast n = 0 \<longleftrightarrow> Suc (unat c) mod unat n = 0" by (metis unat_eq_0)
  with assms(1) show ?thesis by (simp add: xdp_corrupt_def corrupted_def offset_mask Let_def)
qed

lemma corrupt_run:
  assumes "n \<noteq> 0" and "unat c + length pkts < 2 ^ 64"
  shows "xdp_corrupt_run pkts \<lparr>corrupt_every_n = Some n, corrupt_offset = Some off, corrupt_mask = Some msk, corrupt_count = Some c\<rparr> =
    (map (\<lambda>j. corrupted (unat off mod 4096) (ucast msk) ((unat c + Suc j) mod unat n = 0) (pkts ! j)) [0..<length pkts],
     \<lparr>corrupt_every_n = Some n, corrupt_offset = Some off, corrupt_mask = Some msk,
      corrupt_count = Some (c + of_nat (length pkts))\<rparr>)"
  using assms(2)
proof (induction pkts arbitrary: c)
  case (Cons pkt pkts)
  have c: "unat (c + 1) = Suc (unat c)" using unat_add_no_wrap [of c 1] Cons.prems by simp
  then have "unat (c + 1) + length pkts < 2 ^ 64" using Cons.prems by simp
  from Cons.IH [OF this] corrupt_packet [OF assms(1)] Cons.prems c show ?case
    by (simp add: map_upt_Suc add.assoc del: upt_Suc)
qed simp

section \<open>From the injector to the packet\<close>

definition corrupt_view :: "('h, 'w) bpf_env \<Rightarrow> 'h \<Rightarrow> u64 \<Rightarrow> 'w \<Rightarrow> corrupt_maps" where
  "corrupt_view env h c w =
     \<lparr>corrupt_every_n = as_u32 (be_get env h ''corrupt_every_n'' w),
      corrupt_offset = as_u32 (be_get env h ''corrupt_offset'' w),
      corrupt_mask = as_u32 (be_get env h ''corrupt_mask'' w), corrupt_count = Some c\<rparr>"

lemma corrupt_arm_view:
  assumes "maps_work env" and "cr_bpf i = None"
    and "XdpCorruptionInjector_arm env ctx i w = (Ok u, i', w')" and "cr_bpf i' = Some h"
  shows "corrupt_view env h c w' = \<lparr>corrupt_every_n = Some (cr_corrupt_every_n i), corrupt_offset = Some (cr_offset i),
     corrupt_mask = Some (ucast (cr_mask i)), corrupt_count = Some c\<rparr>"
  using assms(2-4)
  by (auto simp: corrupt_defs corrupt_view_def panic_free Let_def
      split: if_splits option.splits prod.splits outcome.splits dest!: set_u32_store [OF assms(1)])

lemma mask_ucast: "ucast (ucast (x :: u8) :: u32) = x"
  by (simp add: unsigned_ucast_eq take_bit_word_eq_self)

section \<open>The life of an injector\<close>

text \<open>One packet, with the count kept by the program, and what the program does to a packet that is due:
  it works on the offset and the mask it finds.\<close>

definition corrupt_meets :: "('h, 'w) bpf_env \<Rightarrow> 'h \<Rightarrow> 'w \<Rightarrow> bytes \<Rightarrow> u64 \<Rightarrow> (xdp_action \<times> bytes) \<times> u64" where
  "corrupt_meets env h w pkt c =
     (case xdp_corrupt (corrupt_view env h c w) pkt of
        (v, m, pkt') \<Rightarrow> ((v, pkt'), case corrupt_count m of None \<Rightarrow> c | Some c' \<Rightarrow> c'))"

definition corrupt_due :: "('h, 'w) bpf_env \<Rightarrow> 'h \<Rightarrow> 'w \<Rightarrow> bytes \<Rightarrow> xdp_action \<times> bytes" where
  "corrupt_due env h w pkt =
     (XDP_PASS,
      case (as_u32 (be_get env h ''corrupt_offset'' w), as_u32 (be_get env h ''corrupt_mask'' w)) of
        (Some off, Some msk) \<Rightarrow> corrupted (unat off mod 4096) (ucast msk) True pkt
      | _ \<Rightarrow> pkt)"

lemma corrupt_counts:
  assumes "be_get env h ''corrupt_every_n'' w = U32 n" and "n \<noteq> 0" and "unat c + 1 < 2 ^ 64"
  shows "corrupt_meets env h w pkt c =
    (if Suc (unat c) mod unat n = 0 then corrupt_due env h w pkt else (XDP_PASS, pkt), c + 1)"
proof -
  have "unat (c + 1) = Suc (unat c)" using unat_add_no_wrap [of c 1] assms(3) by simp
  then have "unat ((c + 1) mod ucast n) = Suc (unat c) mod unat n" by (simp add: unat_mod)
  then have "(c + 1) mod ucast n = 0 \<longleftrightarrow> Suc (unat c) mod unat n = 0" by (metis unat_eq_0)
  then show ?thesis
    using assms(1,2)
    by (simp add: corrupt_meets_def corrupt_due_def corrupt_view_def xdp_corrupt_def corrupted_def offset_mask Let_def
        split: option.split)
qed

interpretation corrupt_switch: counting_switch env "corrupt_ops env" cr_bpf EVERY_N_MAP cr_corrupt_every_n
  "corrupt_meets env" "\<lambda>pkt. (XDP_PASS, pkt)" "corrupt_due env" for env
proof (unfold_locales, goal_cases)
  case (1 i w c r i' w')
  then show ?case
    by (auto simp: corrupt_defs corrupt_ops_def switch_ok_def panic_free Let_def
        split: if_splits option.splits prod.splits outcome.splits
        dest!: set_u32_switch [OF 1(1,2)] load_zero [OF 1(2)])
next
  case (2 i w r i' w')
  then show ?case
    by (auto simp: corrupt_defs corrupt_ops_def switch_ok_def panic_free
        split: if_splits option.splits prod.splits outcome.splits
        dest!: set_u32_switch [OF 2(1,2)])
next
  case (3 h w x st)
  then show ?case by (simp add: corrupt_meets_def corrupt_view_def xdp_corrupt_def)
next
  case (4 h w n c x)
  then show ?case by (intro corrupt_counts) simp_all
qed

text \<open>Over the whole life of an injector, a packet it meets while not armed is untouched, and so are all
  the others but those at the multiples of its modulus.\<close>

lemma corruption_life:
  assumes "maps_work env" and "array_map env ''corrupt_every_n''"
    and "life_run env (corrupt_ops env) cr_bpf (corrupt_meets env) (\<lambda>pkt. (XDP_PASS, pkt))
      (life_init (XdpCorruptionInjector_new i iface n off msk) w 0) es l"
    and "seen = filter fst (lf_log l)" and "length seen < 2 ^ 64"
  shows "(\<forall>(armed, pkt, v) \<in> set (lf_log l). \<not> armed \<longrightarrow> v = (XDP_PASS, pkt))
    \<and> (n \<noteq> 0 \<longrightarrow> (\<forall>k < length seen. Suc k mod unat n \<noteq> 0 \<longrightarrow> snd (snd (seen ! k)) = (XDP_PASS, fst (snd (seen ! k)))))"
proof -
  have map: "array_map env EVERY_N_MAP" using assms(2) by simp
  have ok: "switch_ok env (corrupt_ops env) cr_bpf EVERY_N_MAP cr_corrupt_every_n (XdpCorruptionInjector_new i iface n off msk) w"
    by (simp add: switch_ok_def XdpCorruptionInjector_new_def corrupt_ops_def)
  have "armed" if "(armed, pkt, v) \<in> set (lf_log l)" "v \<noteq> (XDP_PASS, pkt)" for armed pkt v
    using corrupt_switch.touched_only_while_armed [OF assms(1) map assms(3) _ _ that] ok by (simp add: life_init_def)
  moreover have "snd (snd (seen ! k)) = (XDP_PASS, fst (snd (seen ! k)))"
    if "n \<noteq> 0" "k < length seen" "Suc k mod unat n \<noteq> 0" for k
    using corrupt_switch.life_counts [OF assms(1) map assms(3) ok] assms(4,5) that
    by (auto simp: corrupt_switch.fate_def split_def XdpCorruptionInjector_new_def split: if_splits)
  ultimately show ?thesis by blast
qed

section \<open>Properties\<close>



text \<open>
  C37: a load that fails half way is not repaired by trying again. \<^verbatim>\<open>ensure_loaded\<close> stores the
  handle before it writes offset and mask; if one of the writes fails, the next \<^verbatim>\<open>arm\<close> skips both,
  succeeds, and leaves offset and mask as the failed attempt left them.
\<close>

theorem corruption_retry_skips_config:
  assumes "maps_work env"
    and "XdpCorruptionInjector_arm env ctx i w = (Err e, i1, w1)" and "cr_bpf i1 = Some h"
    and "XdpCorruptionInjector_arm env ctx i1 w1 = (Ok u, i2, w2)"
  shows "cr_armed i2
     \<and> be_get env h ''corrupt_offset'' w2 = be_get env h ''corrupt_offset'' w1
     \<and> be_get env h ''corrupt_mask'' w2 = be_get env h ''corrupt_mask'' w1"
proof -
  have "set_u32_map env h (cr_id i1) ''corrupt_every_n'' (cr_corrupt_every_n i1) w1 = (Ok (), w2)" and "cr_armed i2"
    using assms(3,4) by (auto simp: corrupt_defs panic_free split: prod.splits outcome.splits)
  then show ?thesis
    using set_u32_get(2) [OF assms(1)] by auto
qed

text \<open>An environment whose first map write fails.\<close>

definition flaky_env :: "(unit, bool \<times> (string \<Rightarrow> map_value)) bpf_env" where
  "flaky_env = \<lparr>be_load = \<lambda>obj w. (Inr (), w), be_program = \<lambda>h p. Some None,
     be_prog_load = \<lambda>h p w. (None, w), be_attach = \<lambda>h p iface w. (None, w), be_map = \<lambda>h m. Some None,
     be_set = \<lambda>h m v w. (if fst w then (Some ''EPERM'', (False, snd w)) else (None, (False, (snd w)(m := v)))),
     be_get = \<lambda>h m w. snd w m\<rparr>"

theorem corruption_retry_skips_config_witness:
  "let i = XdpCorruptionInjector_new ''c'' ''lo'' 2 5 0xFF;
       ctx = \<lparr>ctx_clock = SystemClock, ctx_seed = 1\<rparr>;
       (r1, i1, w1) = XdpCorruptionInjector_arm flaky_env ctx i (True, \<lambda>m. U32 0);
       (r2, i2, w2) = XdpCorruptionInjector_arm flaky_env ctx i1 w1
   in r1 = Err (ArmFailed ''c'' ''EPERM'') \<and> r2 = Ok () \<and> cr_armed i2 \<and> snd w2 ''corrupt_offset'' = U32 0"
proof -
  let ?ctx = "\<lparr>ctx_clock = SystemClock, ctx_seed = 1\<rparr> :: fault_context"
  let ?i = "XdpCorruptionInjector_new ''c'' ''lo'' 2 5 0xFF :: unit corruption_injector"
  let ?i1 = "?i\<lparr>cr_bpf := Some ()\<rparr>" and ?w = "\<lambda>m :: string. U32 0"
  note eval = corrupt_defs flaky_env_def set_u32_map_def set_map_def load_and_attach_def XdpCorruptionInjector_new_def Let_def
  have works: "maps_work flaky_env" by (auto simp: maps_work_def flaky_env_def)
  have a1: "XdpCorruptionInjector_arm flaky_env ?ctx ?i (True, ?w) = (Err (ArmFailed ''c'' ''EPERM''), ?i1, (False, ?w))"
    by (simp add: eval)
  have a2: "XdpCorruptionInjector_arm flaky_env ?ctx ?i1 (False, ?w)
      = (Ok (), ?i1\<lparr>cr_armed := True\<rparr>, (False, ?w(''corrupt_every_n'' := U32 2)))"
    by (simp add: eval)
  have "cr_bpf ?i1 = Some ()" by simp
  from corruption_retry_skips_config [OF works a1 this a2] show ?thesis
    unfolding Let_def a1 a2 prod.case by (simp add: flaky_env_def)
qed

end
