(* ===== verification/Xdp_Partition.thy ===== *)
theory Xdp_Partition
  imports Xdp_Switch
begin

text \<open>
  Network partition: the injector of \<^verbatim>\<open>kernel/src/xdp_partition.rs\<close> and the program it loads,
  \<^verbatim>\<open>kernel/bpf/xdp_partition.c\<close>. Every read of the program goes through \<open>rd8\<close>, where a read
  past the end of the packet is a \<open>Panic\<close>: that none is reachable is the memory safety of the
  program. Ports and types are compared in host order, addresses as the bytes on the wire, as the code
  does; the host is little-endian.
\<close>

unbundle bit_operations_syntax

section \<open>The injector\<close>

text \<open>The object file, the program in it and its maps, by the names userspace has for them.\<close>

definition XDP_PARTITION_OBJ :: string where
  [simp]: "XDP_PARTITION_OBJ = ''xdp_partition.o''"

definition PARTITION_PROGRAM_NAME :: string where
  [simp]: "PARTITION_PROGRAM_NAME = ''xdp_partition''"

definition ENABLED_MAP :: string where
  [simp]: "ENABLED_MAP = ''partition_enabled''"

definition SRC_IP_MAP :: string where
  [simp]: "SRC_IP_MAP = ''partition_src_ip''"

definition SRC_IP6_MAP :: string where
  [simp]: "SRC_IP6_MAP = ''partition_src_ip6''"

definition SRC_PORT_MAP :: string where
  [simp]: "SRC_PORT_MAP = ''partition_src_port''"

text \<open>\<^verbatim>\<open>IpAddr\<close>, with the address as its octets: 4 for \<open>V4\<close>, 16 for \<open>V6\<close>.\<close>

datatype ip_addr = V4 bytes | V6 bytes

fun ip_addr_ok :: "ip_addr \<Rightarrow> bool" where
  "ip_addr_ok (V4 octets) \<longleftrightarrow> length octets = 4"
| "ip_addr_ok (V6 octets) \<longleftrightarrow> length octets = 16"

text \<open>\<^verbatim>\<open>u32::from_ne_bytes\<close> on a little-endian host.\<close>

definition from_ne_bytes :: "bytes \<Rightarrow> u32" where
  "from_ne_bytes bs = ucast (bs ! 0) + 0x100 * ucast (bs ! 1) + 0x10000 * ucast (bs ! 2) + 0x1000000 * ucast (bs ! 3)"

record 'h partition_injector =
  pt_id :: string
  pt_iface :: string
  pt_src_ip :: ip_addr
  pt_src_port :: u16
  pt_bpf :: "'h option"
  pt_armed :: bool

definition XdpPartitionInjector_new :: "string \<Rightarrow> string \<Rightarrow> ip_addr \<Rightarrow> u16 \<Rightarrow> 'h partition_injector" where
  "XdpPartitionInjector_new i iface ip port =
     \<lparr>pt_id = i, pt_iface = iface, pt_src_ip = ip, pt_src_port = port, pt_bpf = None, pt_armed = False\<rparr>"

definition XdpPartitionInjector_ensure_loaded ::
  "('h, 'w) bpf_env \<Rightarrow> ('h partition_injector, 'w) fault_call" where
  "XdpPartitionInjector_ensure_loaded env i w =
     (if pt_bpf i \<noteq> None then (Ok (), i, w)
      else case load_and_attach env (pt_id i) XDP_PARTITION_OBJ PARTITION_PROGRAM_NAME (pt_iface i) w of
        (Err e, w1) \<Rightarrow> (Err e, i, w1)
      | (Panic m, w1) \<Rightarrow> (Panic m, i, w1)
      | (Ok bpf, w1) \<Rightarrow>
          let i1 = i\<lparr>pt_bpf := Some bpf\<rparr>
          in case (case pt_src_ip i of
                     V4 octets \<Rightarrow> set_u32_map env bpf (pt_id i) SRC_IP_MAP (from_ne_bytes octets) w1
                   | V6 octets \<Rightarrow> set_bytes16_map env bpf (pt_id i) SRC_IP6_MAP octets w1) of
               (Err e, w2) \<Rightarrow> (Err e, i1, w2)
             | (Panic m, w2) \<Rightarrow> (Panic m, i1, w2)
             | (Ok u, w2) \<Rightarrow>
                 (case set_u32_map env bpf (pt_id i) SRC_PORT_MAP (ucast (pt_src_port i)) w2 of
                    (Err e, w3) \<Rightarrow> (Err e, i1, w3)
                  | (Panic m, w3) \<Rightarrow> (Panic m, i1, w3)
                  | (Ok u, w3) \<Rightarrow> (Ok (), i1, w3)))"

definition XdpPartitionInjector_arm ::
  "('h, 'w) bpf_env \<Rightarrow> fault_context \<Rightarrow> ('h partition_injector, 'w) fault_call" where
  "XdpPartitionInjector_arm env ctx i w =
     (case XdpPartitionInjector_ensure_loaded env i w of
        (Err e, i1, w1) \<Rightarrow> (Err e, i1, w1)
      | (Panic m, i1, w1) \<Rightarrow> (Panic m, i1, w1)
      | (Ok u, i1, w1) \<Rightarrow>
          (case pt_bpf i1 of
             None \<Rightarrow> (Panic ''just loaded above'', i1, w1)
           | Some bpf \<Rightarrow>
               (case set_u32_map env bpf (pt_id i1) ENABLED_MAP 1 w1 of
                  (Err e, w2) \<Rightarrow> (Err e, i1, w2)
                | (Panic m, w2) \<Rightarrow> (Panic m, i1, w2)
                | (Ok u, w2) \<Rightarrow> (Ok (), i1\<lparr>pt_armed := True\<rparr>, w2))))"

definition XdpPartitionInjector_disarm :: "('h, 'w) bpf_env \<Rightarrow> ('h partition_injector, 'w) fault_call" where
  "XdpPartitionInjector_disarm env i w =
     (case pt_bpf i of
        None \<Rightarrow> (Ok (), i\<lparr>pt_armed := False\<rparr>, w)
      | Some bpf \<Rightarrow>
          (case set_u32_map env bpf (pt_id i) ENABLED_MAP 0 w of
             (Err e, w') \<Rightarrow> (Err e, i, w')
           | (Panic m, w') \<Rightarrow> (Panic m, i, w')
           | (Ok u, w') \<Rightarrow> (Ok (), i\<lparr>pt_armed := False\<rparr>, w')))"

definition partition_ops :: "('h, 'w) bpf_env \<Rightarrow> ('h partition_injector, 'w) injector_ops" where
  "partition_ops env = \<lparr>op_id = pt_id, op_arm = XdpPartitionInjector_arm env,
     op_disarm = XdpPartitionInjector_disarm env, op_is_armed = pt_armed\<rparr>"

section \<open>The program\<close>

type_synonym 'a read = "('a, unit) outcome"

definition obind :: "'a read \<Rightarrow> ('a \<Rightarrow> 'b read) \<Rightarrow> 'b read" where
  "obind r f = (case r of Ok a \<Rightarrow> f a | Err e \<Rightarrow> Err e | Panic m \<Rightarrow> Panic m)"

definition rd8 :: "bytes \<Rightarrow> nat \<Rightarrow> u8 read" where
  "rd8 pkt off = (if off < length pkt then Ok (pkt ! off) else Panic ''read past data_end'')"

definition ntohs_at :: "bytes \<Rightarrow> nat \<Rightarrow> u16 read" where
  "ntohs_at pkt off =
     obind (rd8 pkt off) (\<lambda>hi. obind (rd8 pkt (off + 1)) (\<lambda>lo. Ok (0x100 * ucast hi + ucast lo)))"

definition ne32_at :: "bytes \<Rightarrow> nat \<Rightarrow> u32 read" where
  "ne32_at pkt off =
     obind (rd8 pkt off) (\<lambda>a. obind (rd8 pkt (off + 1)) (\<lambda>b. obind (rd8 pkt (off + 2)) (\<lambda>c.
       obind (rd8 pkt (off + 3)) (\<lambda>d. Ok (from_ne_bytes [a, b, c, d])))))"

record partition_maps =
  partition_enabled :: "u32 option"
  partition_src_ip :: "u32 option"
  partition_src_ip6 :: "bytes option"
  partition_src_port :: "u32 option"

definition extract_src_port :: "bytes \<Rightarrow> nat \<Rightarrow> u8 \<Rightarrow> u16 option read" where
  "extract_src_port pkt l4 proto =
     (if proto = 17 then
        (if length pkt < l4 + 8 then Ok None else obind (ntohs_at pkt l4) (\<lambda>p. Ok (Some p)))
      else if proto = 6 then
        (if length pkt < l4 + 20 then Ok None else obind (ntohs_at pkt l4) (\<lambda>p. Ok (Some p)))
      else Ok None)"

definition is_vlan :: "u16 \<Rightarrow> bool" where
  "is_vlan h_proto \<longleftrightarrow> h_proto = 0x8100 \<or> h_proto = 0x88A8"

definition vlan_step :: "bytes \<Rightarrow> nat \<Rightarrow> (u16 \<times> nat) option read" where
  "vlan_step pkt l3 =
     (if length pkt < l3 + 4 then Ok None
      else obind (ntohs_at pkt (l3 + 2)) (\<lambda>h_proto. Ok (Some (h_proto, l3 + 4))))"

definition skip_vlan :: "bytes \<Rightarrow> u16 \<Rightarrow> nat \<Rightarrow> (u16 \<times> nat) option read" where
  "skip_vlan pkt h_proto l3 =
     (if is_vlan h_proto then
        obind (vlan_step pkt l3)
          (\<lambda>r. case r of
             None \<Rightarrow> Ok None
           | Some (h_proto, l3) \<Rightarrow> if is_vlan h_proto then vlan_step pkt l3 else Ok (Some (h_proto, l3)))
      else Ok (Some (h_proto, l3)))"

text \<open>The last lines of the program, reached from both branches with the port.\<close>

definition port_verdict :: "u32 \<Rightarrow> u16 option \<Rightarrow> xdp_action read" where
  "port_verdict want_port r =
     (case r of
        None \<Rightarrow> Ok XDP_PASS
      | Some src_port \<Rightarrow> Ok (if src_port = ucast want_port then XDP_DROP else XDP_PASS))"

definition partition_v4 :: "partition_maps \<Rightarrow> bytes \<Rightarrow> nat \<Rightarrow> xdp_action read" where
  "partition_v4 m pkt l3 =
     (if length pkt < l3 + 20 then Ok XDP_PASS
      else obind (rd8 pkt l3) (\<lambda>b0.
        let ihl = unat (b0 AND 0x0F); l4 = l3 + ihl * 4
        in if ihl < 5 then Ok XDP_PASS
           else if length pkt < l4 then Ok XDP_PASS
           else case partition_src_ip m of
             None \<Rightarrow> Ok XDP_PASS
           | Some want_ip \<Rightarrow>
               obind (ne32_at pkt (l3 + 12)) (\<lambda>saddr.
                 if saddr \<noteq> want_ip then Ok XDP_PASS
                 else case partition_src_port m of
                   None \<Rightarrow> Ok XDP_PASS
                 | Some want_port \<Rightarrow>
                     if want_port = 0 then Ok XDP_DROP
                     else obind (ntohs_at pkt (l3 + 6)) (\<lambda>frag_off.
                       if frag_off AND 0x1FFF \<noteq> 0 then Ok XDP_PASS
                       else obind (rd8 pkt (l3 + 9)) (\<lambda>protocol.
                         obind (extract_src_port pkt l4 protocol) (port_verdict want_port))))))"

fun ip6_matches :: "bytes \<Rightarrow> nat \<Rightarrow> bytes \<Rightarrow> bool read" where
  "ip6_matches pkt off [] = Ok True"
| "ip6_matches pkt off (x # xs) =
     obind (rd8 pkt off) (\<lambda>b. if b \<noteq> x then Ok False else ip6_matches pkt (off + 1) xs)"

text \<open>The transport header of an IPv6 packet, past one fragment header.\<close>

definition skip_fragment :: "bytes \<Rightarrow> u8 \<Rightarrow> nat \<Rightarrow> (u8 \<times> nat) option read" where
  "skip_fragment pkt nexthdr l4 =
     (if nexthdr = 44 then
        (if length pkt < l4 + 8 then Ok None
         else obind (ntohs_at pkt (l4 + 2)) (\<lambda>frag.
           if drop_bit 3 frag \<noteq> 0 then Ok None
           else obind (rd8 pkt l4) (\<lambda>nexthdr. Ok (Some (nexthdr, l4 + 8)))))
      else Ok (Some (nexthdr, l4)))"

definition partition_v6 :: "partition_maps \<Rightarrow> bytes \<Rightarrow> nat \<Rightarrow> xdp_action read" where
  "partition_v6 m pkt l3 =
     (if length pkt < l3 + 40 then Ok XDP_PASS
      else case partition_src_ip6 m of
        None \<Rightarrow> Ok XDP_PASS
      | Some want_ip6 \<Rightarrow>
          obind (ip6_matches pkt (l3 + 8) want_ip6) (\<lambda>matches.
            if \<not> matches then Ok XDP_PASS
            else case partition_src_port m of
              None \<Rightarrow> Ok XDP_PASS
            | Some want_port \<Rightarrow>
                if want_port = 0 then Ok XDP_DROP
                else obind (rd8 pkt (l3 + 6)) (\<lambda>nexthdr.
                  obind (skip_fragment pkt nexthdr (l3 + 40)) (\<lambda>r. case r of
                    None \<Rightarrow> Ok XDP_PASS
                  | Some (nexthdr, l4) \<Rightarrow>
                      obind (extract_src_port pkt l4 nexthdr) (port_verdict want_port)))))"

definition xdp_partition :: "partition_maps \<Rightarrow> bytes \<Rightarrow> xdp_action read" where
  "xdp_partition m pkt =
     (case partition_enabled m of
        None \<Rightarrow> Ok XDP_PASS
      | Some enabled \<Rightarrow>
          if enabled = 0 then Ok XDP_PASS
          else if length pkt < 14 then Ok XDP_PASS
          else obind (ntohs_at pkt 12) (\<lambda>h_proto.
            obind (skip_vlan pkt h_proto 14) (\<lambda>r. case r of
              None \<Rightarrow> Ok XDP_PASS
            | Some (h_proto, l3) \<Rightarrow>
                if h_proto = 0x0800 then partition_v4 m pkt l3
                else if h_proto = 0x86DD then partition_v6 m pkt l3
                else Ok XDP_PASS)))"

section \<open>The contract\<close>

lemmas partition_defs =
  XdpPartitionInjector_arm_def XdpPartitionInjector_ensure_loaded_def XdpPartitionInjector_disarm_def

interpretation partition: idempotent_injector "partition_ops env" for env
proof (rule idempotent_injectorI [where ready = "\<lambda>i. pt_bpf i \<noteq> None"], unfold partition_ops_def injector_ops.simps, goal_cases)
  case (1 c i w r i' w')
  then show ?case
    by (auto simp: partition_defs panic_free Let_def
        split: if_splits option.splits prod.splits outcome.splits ip_addr.splits)
next
  case (2 c i w)
  then show ?case
    by (auto simp: partition_defs panic_free split: option.splits prod.splits outcome.splits)
next
  case (3 i w r i' w')
  then show ?case
    by (auto simp: partition_defs panic_free split: option.splits prod.splits outcome.splits)
next
  case (4 i w)
  then show ?case
    by (auto simp: partition_defs panic_free split: option.splits prod.splits outcome.splits)
qed

section \<open>Reads\<close>

lemma obind_simps [simp]:
  "obind (Ok a) f = f a" "obind (Err e) f = Err e" "obind (Panic m) f = Panic m"
  by (simp_all add: obind_def)

lemma rd8_in [simp]: "off < length pkt \<Longrightarrow> rd8 pkt off = Ok (pkt ! off)"
  by (simp add: rd8_def)

lemma ntohs_in: "off + 1 < length pkt \<Longrightarrow>
    ntohs_at pkt off = Ok (0x100 * ucast (pkt ! off) + ucast (pkt ! (off + 1)))"
  by (simp add: ntohs_at_def)

lemma ne32_in: "off + 3 < length pkt \<Longrightarrow>
    ne32_at pkt off = Ok (from_ne_bytes [pkt ! off, pkt ! (off + 1), pkt ! (off + 2), pkt ! (off + 3)])"
  by (simp add: ne32_at_def)

lemma ip6_matches_in:
  "off + length xs \<le> length pkt \<Longrightarrow> ip6_matches pkt off xs = Ok (take (length xs) (drop off pkt) = xs)"
proof (induction xs arbitrary: off)
  case (Cons x xs)
  then have "off < length pkt" by simp
  then have "drop off pkt = pkt ! off # drop (Suc off) pkt" by (simp add: Cons_nth_drop_Suc)
  with Cons show ?case by simp
qed simp

lemma extract_port_ok: "\<exists>r. extract_src_port pkt l4 proto = Ok r"
  by (auto simp: extract_src_port_def ntohs_in)

lemma port_verdict_ok: "\<exists>v. port_verdict wp r = Ok v"
  by (cases r) (simp_all add: port_verdict_def)

lemma vlan_step_ok: "\<exists>r. vlan_step pkt l3 = Ok r"
  by (auto simp: vlan_step_def ntohs_in)

lemma skip_vlan_ok: "\<exists>r. skip_vlan pkt h l3 = Ok r"
proof (cases "is_vlan h")
  case True
  obtain r where r: "vlan_step pkt l3 = Ok r" using vlan_step_ok by blast
  show ?thesis
    using True r vlan_step_ok by (cases r) (auto simp: skip_vlan_def)
qed (simp add: skip_vlan_def)

lemma skip_fragment_ok: "\<exists>r. skip_fragment pkt nh l4 = Ok r"
  by (auto simp: skip_fragment_def ntohs_in)

lemma port_lookup_ok: "\<exists>v. obind (extract_src_port pkt l4 proto) (port_verdict wp) = Ok v"
  using extract_port_ok [of pkt l4 proto] port_verdict_ok by fastforce

lemma partition_v4_ok: "\<exists>v. partition_v4 m pkt l3 = Ok v"
proof (cases "length pkt < l3 + 20")
  case True
  then show ?thesis by (simp add: partition_v4_def)
next
  case False
  then show ?thesis
    using port_lookup_ok by (auto simp: partition_v4_def Let_def ne32_in ntohs_in split: option.split)
qed

lemma partition_v6_ok:
  assumes "\<And>want. partition_src_ip6 m = Some want \<Longrightarrow> length want = 16"
  shows "\<exists>v. partition_v6 m pkt l3 = Ok v"
proof (cases "length pkt < l3 + 40 \<or> partition_src_ip6 m = None")
  case True
  then show ?thesis by (auto simp: partition_v6_def)
next
  case False
  then obtain want where want: "partition_src_ip6 m = Some want" "length want = 16" using assms by auto
  obtain r where "skip_fragment pkt (pkt ! (l3 + 6)) (l3 + 40) = Ok r" using skip_fragment_ok by blast
  then show ?thesis
    using False want port_lookup_ok
    by (auto simp: partition_v6_def ip6_matches_in split: option.splits prod.splits)
qed

section \<open>Packets\<close>

text \<open>
  The specification side: an Ethernet frame as the bytes of its parts. A tag is an 802.1Q or 802.1ad
  tag with its control bytes; \<open>transport_port\<close> is the source port a transport header carries, if the
  packet is long enough to hold the header.
\<close>

fun vlan_bytes :: "(bool \<times> u8 \<times> u8) list \<Rightarrow> bytes" where
  "vlan_bytes [] = []"
| "vlan_bytes ((ad, hi, lo) # tags) = (if ad then [0x88, 0xA8] else [0x81, 0x00]) @ [hi, lo] @ vlan_bytes tags"

definition be16 :: "u8 \<Rightarrow> u8 \<Rightarrow> u16" where
  "be16 hi lo = 0x100 * ucast hi + ucast lo"

definition transport_port :: "u8 \<Rightarrow> bytes \<Rightarrow> u16 option" where
  "transport_port proto l4 =
     (if proto = 17 \<and> 8 \<le> length l4 \<or> proto = 6 \<and> 20 \<le> length l4 then Some (be16 (l4 ! 0) (l4 ! 1)) else None)"

definition transport_port6 :: "u8 \<Rightarrow> bytes \<Rightarrow> u16 option" where
  "transport_port6 nexthdr l4 =
     (if nexthdr \<noteq> 44 then transport_port nexthdr l4
      else if length l4 < 8 \<or> drop_bit 3 (be16 (l4 ! 2) (l4 ! 3)) \<noteq> 0 then None
      else transport_port (l4 ! 0) (drop 8 l4))"

lemma length_vlan_bytes [simp]: "length (vlan_bytes tags) = 4 * length tags"
  by (induction tags rule: vlan_bytes.induct) auto

text \<open>The program looks at what follows a pointer only.\<close>

lemma rd8_shift: "rd8 (xs @ ys) (length xs + k) = rd8 ys k"
  by (simp add: rd8_def nth_append)

lemma ntohs_shift: "ntohs_at (xs @ ys) (length xs + k) = ntohs_at ys k"
  using rd8_shift [of xs ys k] rd8_shift [of xs ys "k + 1"] by (simp add: ntohs_at_def add.assoc)

lemma ne32_shift: "ne32_at (xs @ ys) (length xs + k) = ne32_at ys k"
  using rd8_shift [of xs ys k] rd8_shift [of xs ys "k + 1"] rd8_shift [of xs ys "k + 2"] rd8_shift [of xs ys "k + 3"]
  by (simp add: ne32_at_def add.assoc)

lemma extract_port_shift: "extract_src_port (xs @ ys) (length xs + k) proto = extract_src_port ys k proto"
  using ntohs_shift [of xs ys k] by (simp add: extract_src_port_def add.assoc)

lemma ip6_matches_shift: "ip6_matches (xs @ ys) (length xs + k) want = ip6_matches ys k want"
proof (induction want arbitrary: k)
  case (Cons x want)
  show ?case using Cons [of "k + 1"] rd8_shift [of xs ys k] by (simp only: ip6_matches.simps add.assoc)
qed simp

lemma skip_fragment_shift:
  "skip_fragment (xs @ ys) nh (length xs + k) =
     obind (skip_fragment ys nh k) (\<lambda>r. Ok (map_option (\<lambda>(nh, l4). (nh, length xs + l4)) r))"
  using ntohs_shift [of xs ys "k + 2"] rd8_shift [of xs ys k]
  by (cases "length ys < k + 8") (auto simp: skip_fragment_def add.assoc ntohs_in)

lemma partition_v4_shift: "partition_v4 m (xs @ ys) (length xs) = partition_v4 m ys 0"
  using rd8_shift [of xs ys 0] rd8_shift [of xs ys 9] ntohs_shift [of xs ys 6] ne32_shift [of xs ys 12]
    extract_port_shift [of xs ys]
  by (simp add: partition_v4_def Let_def cong: if_cong option.case_cong)

lemma partition_v6_shift: "partition_v6 m (xs @ ys) (length xs) = partition_v6 m ys 0"
proof -
  have "obind (skip_fragment (xs @ ys) nh (length xs + 40)) (\<lambda>r. case r of None \<Rightarrow> Ok XDP_PASS
         | Some (nh, l4) \<Rightarrow> obind (extract_src_port (xs @ ys) l4 nh) f)
      = obind (skip_fragment ys nh 40) (\<lambda>r. case r of None \<Rightarrow> Ok XDP_PASS
         | Some (nh, l4) \<Rightarrow> obind (extract_src_port ys l4 nh) f)" for nh f
    using skip_fragment_ok [of ys nh 40] extract_port_shift [of xs ys]
    by (auto simp: skip_fragment_shift split: option.splits prod.splits)
  then show ?thesis
    using rd8_shift [of xs ys 6] ip6_matches_shift [of xs ys 8]
    by (simp add: partition_v6_def cong: if_cong option.case_cong)
qed

lemma ethertype_found:
  assumes "length macs = 12" and "length tags \<le> 2" and "\<not> is_vlan (be16 hi lo)"
  shows "obind (ntohs_at (macs @ vlan_bytes tags @ [hi, lo] @ rest) 12)
      (\<lambda>h. skip_vlan (macs @ vlan_bytes tags @ [hi, lo] @ rest) h 14)
    = Ok (Some (be16 hi lo, 14 + 4 * length tags))"
proof -
  have n: "ntohs_at (macs @ ys) (12 + k) = ntohs_at ys k" for ys k
    using ntohs_shift [of macs ys k] assms(1) by simp
  have tag: "is_vlan (0x100 * ucast (0x88 :: u8) + ucast (0xA8 :: u8))" "is_vlan (0x100 * ucast (0x81 :: u8) + ucast (0 :: u8))"
    by (simp_all add: is_vlan_def)
  consider "tags = []" | t where "tags = [t]" | t u where "tags = [t, u]"
    using assms(2) by (cases tags rule: vlan_bytes.cases; cases "tl tags"; auto simp: Suc_le_eq numeral_2_eq_2)
  then show ?thesis
  proof cases
    case 1
    then show ?thesis
      using assms(3) n [of _ 0] by (simp add: skip_vlan_def ntohs_in be16_def)
  next
    case 2
    obtain ad a b where "t = (ad, a, b)" by (metis prod_cases3)
    with 2 show ?thesis
      using assms(1,3) tag n [of _ 0] n [of _ 4]
      by (auto simp: skip_vlan_def vlan_step_def ntohs_in be16_def)
  next
    case 3
    obtain ad a b ad' a' b' where "t = (ad, a, b)" "u = (ad', a', b')" by (metis prod_cases3)
    with 3 show ?thesis
      using assms(1,3) tag n [of _ 0] n [of _ 4] n [of _ 8]
      by (auto simp: skip_vlan_def vlan_step_def ntohs_in be16_def)
  qed
qed

lemma unat_of_nat_u32: "n < 2 ^ 32 \<Longrightarrow> unat (of_nat n :: u32) = n"
  by (simp add: unsigned_of_nat take_bit_nat_eq_self_iff)

lemma unat_ne_bytes:
  "unat (from_ne_bytes [a, b, c, d]) = unat a + 256 * unat b + 65536 * unat c + 16777216 * unat d"
proof -
  let ?n = "unat a + 256 * unat b + 65536 * unat c + 16777216 * unat d"
  have "from_ne_bytes [a, b, c, d] = of_nat ?n" by (simp add: from_ne_bytes_def)
  moreover have "?n < 4294967296"
    using unat_u8_lt [of a] unat_u8_lt [of b] unat_u8_lt [of c] unat_u8_lt [of d] by linarith
  then have "unat (of_nat ?n :: u32) = ?n" by (intro unat_of_nat_u32) simp
  ultimately show ?thesis by simp
qed

lemma digit_step:
  assumes "(a :: nat) + 256 * x = a' + 256 * x'" and "a < 256" and "a' < 256"
  shows "a = a' \<and> x = x'"
proof -
  have "(a + 256 * x) mod 256 = a" "(a' + 256 * x') mod 256 = a'" using assms(2,3) by simp_all
  then have "a = a'" using assms(1) by metis
  with assms(1) show ?thesis by simp
qed

lemma digits_inj:
  fixes a b c d a' b' c' d' :: nat
  assumes "a + 256 * b + 65536 * c + 16777216 * d = a' + 256 * b' + 65536 * c' + 16777216 * d'"
    and "a < 256" "b < 256" "c < 256" "a' < 256" "b' < 256" "c' < 256"
  shows "a = a' \<and> b = b' \<and> c = c' \<and> d = d'"
proof -
  have "a = a' \<and> b + 256 * (c + 256 * d) = b' + 256 * (c' + 256 * d')"
    using assms(1,2,5) by (intro digit_step) simp_all
  then show ?thesis
    using digit_step [of b "c + 256 * d" b' "c' + 256 * d'"] digit_step [of c d c' d'] assms by simp
qed

lemma ne_bytes_eq_iff:
  assumes "length xs = 4" and "length ys = 4"
  shows "from_ne_bytes xs = from_ne_bytes ys \<longleftrightarrow> xs = ys"
proof
  assume eq: "from_ne_bytes xs = from_ne_bytes ys"
  obtain a b c d where xs: "xs = [a, b, c, d]" using assms(1) by (auto simp: length_Suc_conv numeral_eq_Suc)
  obtain a' b' c' d' where ys: "ys = [a', b', c', d']" using assms(2) by (auto simp: length_Suc_conv numeral_eq_Suc)
  have "unat a = unat a' \<and> unat b = unat b' \<and> unat c = unat c' \<and> unat d = unat d'"
    using arg_cong [OF eq, of unat] unat_u8_lt unfolding xs ys unat_ne_bytes by (intro digits_inj) auto
  then show "xs = ys" by (simp add: xs ys word_unat_eq_iff)
qed simp

lemma extract_port_spec: "extract_src_port (ip @ l4) (length ip) proto = Ok (transport_port proto l4)"
  using extract_port_shift [of ip l4 0 proto]
  by (auto simp: extract_src_port_def transport_port_def ntohs_in be16_def)

lemma take_four: "k + 3 < length xs \<Longrightarrow> take 4 (drop k xs) = [xs ! k, xs ! (k + 1), xs ! (k + 2), xs ! (k + 3)]"
  by (simp add: Cons_nth_drop_Suc [symmetric] numeral_eq_Suc)

lemma partition_v4_spec:
  assumes ihl: "length ip = 4 * unat (ip ! 0 AND 0x0F)" and "20 \<le> length ip" and "length octets = 4"
    and maps: "partition_src_ip m = Some (from_ne_bytes octets)" "partition_src_port m = Some wp"
  shows "partition_v4 m (ip @ l4) 0 =
    Ok (if take 4 (drop 12 ip) = octets
           \<and> (wp = 0 \<or> be16 (ip ! 6) (ip ! 7) AND 0x1FFF = 0 \<and> transport_port (ip ! 9) l4 = Some (ucast wp))
        then XDP_DROP else XDP_PASS)"
proof -
  have saddr: "from_ne_bytes [ip ! 12, ip ! 13, ip ! 14, ip ! 15] = from_ne_bytes octets \<longleftrightarrow> take 4 (drop 12 ip) = octets"
    using assms(2,3) by (subst ne_bytes_eq_iff) (simp_all add: take_four)
  have reads: "rd8 (ip @ l4) 0 = Ok (ip ! 0)" "rd8 (ip @ l4) 9 = Ok (ip ! 9)"
      "ntohs_at (ip @ l4) 6 = Ok (be16 (ip ! 6) (ip ! 7))"
      "ne32_at (ip @ l4) 12 = Ok (from_ne_bytes [ip ! 12, ip ! 13, ip ! 14, ip ! 15])"
    using assms(2) by (cases ip; simp add: ntohs_in ne32_in be16_def nth_append)+
  have l4: "unat (ip ! 0 AND 0x0F) * 4 = length ip" "\<not> unat (ip ! 0 AND 0x0F) < 5"
    using ihl assms(2) by simp_all
  show ?thesis
    unfolding partition_v4_def Let_def add_0 reads obind_simps maps l4
    using assms(2) l4(2) extract_port_spec [of ip l4]
    by (auto simp: saddr port_verdict_def split: option.splits)
qed

lemma skip_fragment_spec:
  assumes "length ip6 = 40"
  shows "obind (skip_fragment (ip6 @ l4) nh 40) (\<lambda>r. case r of None \<Rightarrow> Ok XDP_PASS
       | Some (nh, k) \<Rightarrow> obind (extract_src_port (ip6 @ l4) k nh) (port_verdict wp))
     = port_verdict wp (transport_port6 nh l4)"
proof (cases "nh = 44 \<and> 8 \<le> length l4")
  case True
  have "extract_src_port (ip6 @ l4) 48 h = Ok (transport_port h (drop 8 l4))" for h
    using True assms extract_port_spec [of "ip6 @ take 8 l4" "drop 8 l4" h] by simp
  moreover have "ntohs_at (ip6 @ l4) 42 = Ok (be16 (l4 ! 2) (l4 ! 3))" "rd8 (ip6 @ l4) 40 = Ok (l4 ! 0)"
    using True assms by (cases l4; simp add: ntohs_in be16_def nth_append)+
  ultimately show ?thesis
    using True assms by (simp add: skip_fragment_def transport_port6_def port_verdict_def)
next
  case False
  then show ?thesis
    using assms extract_port_spec [of ip6 l4 nh]
    by (auto simp: skip_fragment_def transport_port6_def port_verdict_def)
qed

lemma partition_v6_spec:
  assumes "length ip6 = 40" and "length octets = 16"
    and maps: "partition_src_ip6 m = Some octets" "partition_src_port m = Some wp"
  shows "partition_v6 m (ip6 @ l4) 0 =
    Ok (if take 16 (drop 8 ip6) = octets \<and> (wp = 0 \<or> transport_port6 (ip6 ! 6) l4 = Some (ucast wp))
        then XDP_DROP else XDP_PASS)"
proof -
  have reads: "ip6_matches (ip6 @ l4) 8 octets = Ok (take 16 (drop 8 ip6) = octets)" "rd8 (ip6 @ l4) 6 = Ok (ip6 ! 6)"
    using assms(1,2) by (simp_all add: ip6_matches_in nth_append)
  show ?thesis
    unfolding partition_v6_def add_0 maps option.case reads obind_simps skip_fragment_spec [OF assms(1)]
    using assms(1) by (auto simp: port_verdict_def split: option.splits)
qed

section \<open>From the injector to the packet\<close>

text \<open>What the program finds in its maps: the kernel's side of the object the injector configured.\<close>

definition partition_view :: "('h, 'w) bpf_env \<Rightarrow> 'h \<Rightarrow> 'w \<Rightarrow> partition_maps" where
  "partition_view env h w =
     \<lparr>partition_enabled = as_u32 (be_get env h ''partition_enabled'' w),
      partition_src_ip = as_u32 (be_get env h ''partition_src_ip'' w),
      partition_src_ip6 = as_bytes16 (be_get env h ''partition_src_ip6'' w),
      partition_src_port = as_u32 (be_get env h ''partition_src_port'' w)\<rparr>"

lemma partition_arm_maps:
  assumes "maps_work env" and "pt_bpf i = None"
    and "XdpPartitionInjector_arm env ctx i w = (Ok u, i', w')"
  shows "\<exists>h. pt_bpf i' = Some h \<and> partition_enabled (partition_view env h w') = Some 1
    \<and> partition_src_port (partition_view env h w') = Some (ucast (pt_src_port i))
    \<and> (\<forall>octets. pt_src_ip i = V4 octets \<longrightarrow> partition_src_ip (partition_view env h w') = Some (from_ne_bytes octets))
    \<and> (\<forall>octets. pt_src_ip i = V6 octets \<longrightarrow> partition_src_ip6 (partition_view env h w') = Some octets)"
  using assms(2,3)
  by (auto simp: partition_defs partition_view_def panic_free Let_def
      split: if_splits option.splits prod.splits outcome.splits ip_addr.splits
      dest!: set_u32_store [OF assms(1)] set_bytes16_store [OF assms(1)])

lemma port_ucast: "ucast (ucast (p :: u16) :: u32) = p" "(ucast p :: u32) = 0 \<longleftrightarrow> p = 0"
proof -
  show p: "ucast (ucast p :: u32) = p" by (simp add: unsigned_ucast_eq take_bit_word_eq_self)
  show "(ucast p :: u32) = 0 \<longleftrightarrow> p = 0" using p by (metis unsigned_0)
qed

lemma enabled_frame:
  assumes "partition_enabled m = Some 1" and "length macs = 12" and "length tags \<le> 2"
    and "\<not> is_vlan (be16 hi lo)"
  shows "xdp_partition m (macs @ vlan_bytes tags @ [hi, lo] @ l3) =
    (if be16 hi lo = 0x0800 then partition_v4 m l3 0
     else if be16 hi lo = 0x86DD then partition_v6 m l3 0 else Ok XDP_PASS)"
proof -
  let ?pre = "macs @ vlan_bytes tags @ [hi, lo]"
  have len: "length ?pre = 14 + 4 * length tags" using assms(2) by simp
  have "obind (ntohs_at (?pre @ l3) 12) (\<lambda>h. obind (skip_vlan (?pre @ l3) h 14) f) =
      obind (obind (ntohs_at (?pre @ l3) 12) (\<lambda>h. skip_vlan (?pre @ l3) h 14)) f" for f :: "_ \<Rightarrow> xdp_action read"
    by (cases "ntohs_at (?pre @ l3) 12") simp_all
  then show ?thesis
    using assms(1) len ethertype_found [OF assms(2-4), of l3]
      partition_v4_shift [of m ?pre l3] partition_v6_shift [of m ?pre l3]
    by (simp add: xdp_partition_def)
qed

section \<open>The life of an injector\<close>

definition partition_meets :: "('h, 'w) bpf_env \<Rightarrow> 'h \<Rightarrow> 'w \<Rightarrow> bytes \<Rightarrow> unit \<Rightarrow> xdp_action read \<times> unit" where
  "partition_meets env h w pkt st = (xdp_partition (partition_view env h w) pkt, st)"

interpretation partition_switch: map_switch env "partition_ops env" pt_bpf ENABLED_MAP "\<lambda>i. 1"
  "partition_meets env" "\<lambda>pkt. Ok XDP_PASS" for env
proof (unfold_locales, goal_cases)
  case (1 i w c r i' w')
  then show ?case
    by (auto simp: partition_defs partition_ops_def switch_ok_def panic_free Let_def
        split: if_splits option.splits prod.splits outcome.splits ip_addr.splits
        dest!: set_u32_switch [OF 1(1,2)] set_bytes16_switch [OF 1(1,2)] load_zero [OF 1(2)])
next
  case (2 i w r i' w')
  then show ?case
    by (auto simp: partition_defs partition_ops_def switch_ok_def panic_free
        split: if_splits option.splits prod.splits outcome.splits
        dest!: set_u32_switch [OF 2(1,2)])
next
  case (3 h w x st)
  then show ?case by (simp add: partition_meets_def partition_view_def xdp_partition_def)
qed

text \<open>Over the whole life of an injector, only a packet it meets while armed is dropped.\<close>

lemma partition_life:
  assumes "maps_work env" and "array_map env ''partition_enabled''"
    and "life_run env (partition_ops env) pt_bpf (partition_meets env) (\<lambda>pkt. Ok XDP_PASS)
      (life_init (XdpPartitionInjector_new i iface ip port) w ()) es l"
    and "(armed, pkt, v) \<in> set (lf_log l)" and "v \<noteq> Ok XDP_PASS"
  shows armed
proof -
  have "array_map env ENABLED_MAP" using assms(2) by simp
  from partition_switch.touched_only_while_armed [OF assms(1) this assms(3) _ _ assms(4,5)] show ?thesis
    by (simp add: switch_ok_def XdpPartitionInjector_new_def partition_ops_def life_init_def)
qed

section \<open>Properties\<close>

text \<open>
  C17: memory safety of the partition program. Whatever the packet and the values in the maps, no read
  goes past \<open>data_end\<close>: the program always returns a verdict. The one hypothesis is the value size
  the object declares for the address map, 16 bytes.
\<close>

theorem partition_memory_safe:
  assumes "\<And>want. partition_src_ip6 m = Some want \<Longrightarrow> length want = 16"
  shows "\<exists>v. xdp_partition m pkt = Ok v"
proof (cases "partition_enabled m = None \<or> partition_enabled m = Some 0 \<or> length pkt < 14")
  case True
  then show ?thesis by (auto simp: xdp_partition_def split: option.split)
next
  case False
  have v6: "\<exists>v. partition_v6 m pkt l3 = Ok v" for l3 by (rule partition_v6_ok) (rule assms)
  obtain r where "skip_vlan pkt (0x100 * ucast (pkt ! 12) + ucast (pkt ! 13)) 14 = Ok r"
    using skip_vlan_ok by blast
  with False v6 partition_v4_ok show ?thesis
    by (auto simp: xdp_partition_def ntohs_in split: option.splits prod.splits)
qed

theorem partition_memory_safe_witness:
  "\<exists>v. xdp_partition \<lparr>partition_enabled = Some 1, partition_src_ip = Some 0, partition_src_ip6 = Some (replicate 16 0),
     partition_src_port = Some 80\<rparr> (replicate 12 0 @ [0x86, 0xDD, 0x60]) = Ok v"
  by (rule partition_memory_safe) simp

text \<open>
  C15: what an armed IPv4 partition drops, from the injector's configuration to the verdict on a
  frame. Once a fresh injector for address \<open>octets\<close> and port \<open>p\<close> is armed, an IPv4 frame under at
  most two VLAN tags is dropped if and only if its source address is \<open>octets\<close> and either \<open>p = 0\<close>
  or it is not a later fragment and carries a UDP or TCP header with source port \<open>p\<close>, IP options
  skipped.
\<close>

theorem partition_v4_exact:
  assumes "maps_work env" and "pt_bpf i = None" and "pt_src_ip i = V4 octets" and "length octets = 4"
    and "XdpPartitionInjector_arm env ctx i w = (Ok u, i', w')" and "pt_bpf i' = Some h"
    and "length macs = 12" and "length tags \<le> 2"
    and "length ip = 4 * unat (ip ! 0 AND 0x0F)" and "20 \<le> length ip"
  shows "xdp_partition (partition_view env h w') (macs @ vlan_bytes tags @ [0x08, 0x00] @ ip @ l4) =
    Ok (if take 4 (drop 12 ip) = octets
           \<and> (pt_src_port i = 0 \<or> be16 (ip ! 6) (ip ! 7) AND 0x1FFF = 0
                \<and> transport_port (ip ! 9) l4 = Some (pt_src_port i))
        then XDP_DROP else XDP_PASS)"
proof -
  have maps: "partition_enabled (partition_view env h w') = Some 1"
      "partition_src_port (partition_view env h w') = Some (ucast (pt_src_port i))"
      "partition_src_ip (partition_view env h w') = Some (from_ne_bytes octets)"
    using partition_arm_maps [OF assms(1,2,5)] assms(3,6) by auto
  have "be16 0x08 0x00 = 0x0800" "\<not> is_vlan 0x0800" by (simp_all add: be16_def is_vlan_def)
  with enabled_frame [OF maps(1) assms(7,8), of "0x08" "0x00" "ip @ l4"]
    partition_v4_spec [OF assms(9,10,4) maps(3,2), of l4] show ?thesis
    by (simp add: port_ucast)
qed

theorem partition_v4_exact_witness:
  "let i = XdpPartitionInjector_new ''cut'' ''lo'' (V4 [10, 0, 0, 1]) 80;
       w' = snd (snd (XdpPartitionInjector_arm memory_env \<lparr>ctx_clock = SystemClock, ctx_seed = 1\<rparr> i (\<lambda>m. U32 0)))
   in xdp_partition (partition_view memory_env () w')
        (replicate 12 0 @ vlan_bytes [(True, 0, 5), (False, 0, 6)] @ [0x08, 0x00]
          @ ([0x45, 0, 0, 28, 0, 0, 0x40, 0, 64, 17, 0, 0] @ [10, 0, 0, 1] @ [10, 0, 0, 2])
          @ [0, 80, 1, 2, 0, 8, 0, 0]) = Ok XDP_DROP"
proof -
  let ?i = "XdpPartitionInjector_new ''cut'' ''lo'' (V4 [10, 0, 0, 1]) 80 :: unit partition_injector"
  let ?ip = "[0x45, 0, 0, 28, 0, 0, 0x40, 0, 64, 17, 0, 0] @ [10, 0, 0, 1] @ [10, 0, 0, 2] :: bytes"
  have i: "pt_bpf ?i = None" "pt_src_ip ?i = V4 [10, 0, 0, 1]" "pt_src_port ?i = 80"
    by (simp_all add: XdpPartitionInjector_new_def)
  obtain w' where arm: "XdpPartitionInjector_arm memory_env \<lparr>ctx_clock = SystemClock, ctx_seed = 1\<rparr> ?i (\<lambda>m. U32 0)
      = (Ok (), ?i\<lparr>pt_bpf := Some (), pt_armed := True\<rparr>, w')"
    by (simp add: partition_defs XdpPartitionInjector_new_def)
  have "length ?ip = 4 * unat (?ip ! 0 AND 0x0F)" by simp
  from partition_v4_exact [OF memory_env_works i(1,2) _ arm _ _ _ this, of "()" "replicate 12 0"
      "[(True, 0, 5), (False, 0, 6)]" "[0, 80, 1, 2, 0, 8, 0, 0]"] show ?thesis
    unfolding Let_def arm snd_conv by (simp add: i transport_port_def be16_def)
qed

text \<open>
  C16: the same for an armed IPv6 partition. The transport header is looked for right after the fixed
  header or behind one fragment header of offset 0; with any other extension header in between only a
  configuration without a port matches.
\<close>

theorem partition_v6_exact:
  assumes "maps_work env" and "pt_bpf i = None" and "pt_src_ip i = V6 octets" and "length octets = 16"
    and "XdpPartitionInjector_arm env ctx i w = (Ok u, i', w')" and "pt_bpf i' = Some h"
    and "length macs = 12" and "length tags \<le> 2" and "length ip6 = 40"
  shows "xdp_partition (partition_view env h w') (macs @ vlan_bytes tags @ [0x86, 0xDD] @ ip6 @ l4) =
    Ok (if take 16 (drop 8 ip6) = octets
           \<and> (pt_src_port i = 0 \<or> transport_port6 (ip6 ! 6) l4 = Some (pt_src_port i))
        then XDP_DROP else XDP_PASS)"
proof -
  have maps: "partition_enabled (partition_view env h w') = Some 1"
      "partition_src_port (partition_view env h w') = Some (ucast (pt_src_port i))"
      "partition_src_ip6 (partition_view env h w') = Some octets"
    using partition_arm_maps [OF assms(1,2,5)] assms(3,6) by auto
  have "be16 0x86 0xDD = 0x86DD" "\<not> is_vlan 0x86DD" by (simp_all add: be16_def is_vlan_def)
  with enabled_frame [OF maps(1) assms(7,8), of "0x86" "0xDD" "ip6 @ l4"]
    partition_v6_spec [OF assms(9,4) maps(3,2), of l4] show ?thesis
    by (simp add: port_ucast)
qed

theorem partition_v6_exact_witness:
  "let i = XdpPartitionInjector_new ''cut'' ''lo'' (V6 (replicate 15 0 @ [1])) 443;
       w' = snd (snd (XdpPartitionInjector_arm memory_env \<lparr>ctx_clock = SystemClock, ctx_seed = 1\<rparr> i (\<lambda>m. U32 0)))
   in xdp_partition (partition_view memory_env () w')
        (replicate 12 0 @ vlan_bytes [] @ [0x86, 0xDD]
          @ ([0x60, 0, 0, 0, 0, 16, 44, 64] @ (replicate 15 0 @ [1]) @ replicate 16 0)
          @ ([17, 0, 0, 0, 0, 0, 0, 9] @ [1, 187, 1, 2, 0, 8, 0, 0])) = Ok XDP_DROP"
proof -
  let ?src = "replicate 15 0 @ [1] :: bytes"
  let ?i = "XdpPartitionInjector_new ''cut'' ''lo'' (V6 ?src) 443 :: unit partition_injector"
  have i: "pt_bpf ?i = None" "pt_src_ip ?i = V6 ?src" "pt_src_port ?i = 443"
    by (simp_all add: XdpPartitionInjector_new_def)
  obtain w' where arm: "XdpPartitionInjector_arm memory_env \<lparr>ctx_clock = SystemClock, ctx_seed = 1\<rparr> ?i (\<lambda>m. U32 0)
      = (Ok (), ?i\<lparr>pt_bpf := Some (), pt_armed := True\<rparr>, w')"
    by (simp add: partition_defs XdpPartitionInjector_new_def)
  from partition_v6_exact [OF memory_env_works i(1,2) _ arm, of "()" "replicate 12 0" "[]"
      "[0x60, 0, 0, 0, 0, 16, 44, 64] @ ?src @ replicate 16 0"
      "[17, 0, 0, 0, 0, 0, 0, 9] @ [1, 187, 1, 2, 0, 8, 0, 0]"] show ?thesis
    unfolding Let_def arm snd_conv by (simp add: i transport_port6_def transport_port_def be16_def)
qed

end
