(* ===== verification/Rust_Os.thy ===== *)
theory Rust_Os
  imports Core_Types
begin

text \<open>
  What the two injectors without a BPF program and the build script use of \<^verbatim>\<open>std::path\<close>,
  \<^verbatim>\<open>std::fs\<close> and of text processing: paths are kept as the string they are built from, with
  \<^verbatim>\<open>join\<close>, \<^verbatim>\<open>parent\<close>, \<^verbatim>\<open>file_stem\<close>, \<^verbatim>\<open>extension\<close> and the component-wise comparison of
  \<^verbatim>\<open>PathBuf\<close>; the file system itself is the parameter \<open>fs_env\<close>.
\<close>

section \<open>Definitions\<close>

definition path_join :: "string \<Rightarrow> string \<Rightarrow> string" where
  "path_join p q =
     (if starts_with q ''/'' then q
      else if p = [] \<or> last p = CHR ''/'' then p @ q
      else p @ ''/'' @ q)"

definition path_segments :: "string \<Rightarrow> string list" where
  "path_segments p = split_on (\<lambda>c. c = CHR ''/'') p"

text \<open>Repeated separators and \<^verbatim>\<open>.\<close> are no components.\<close>

definition blank_segment :: "string \<Rightarrow> bool" where
  "blank_segment s \<longleftrightarrow> s = [] \<or> s = ''.''"

definition path_components :: "string \<Rightarrow> string list" where
  "path_components p = filter (\<lambda>s. \<not> blank_segment s) (path_segments p)"

definition path_eq :: "string \<Rightarrow> string \<Rightarrow> bool" where
  "path_eq p q \<longleftrightarrow> starts_with p ''/'' = starts_with q ''/'' \<and> path_components p = path_components q"

fun join_segments :: "string list \<Rightarrow> string" where
  "join_segments [] = []"
| "join_segments [s] = s"
| "join_segments (s # t # ss) = s @ ''/'' @ join_segments (t # ss)"

definition path_parent :: "string \<Rightarrow> string option" where
  "path_parent p =
     (case dropWhile blank_segment (rev (path_segments p)) of
        [] \<Rightarrow> None
      | s # before \<Rightarrow>
          (case dropWhile blank_segment before of
             [] \<Rightarrow> Some (if starts_with p ''/'' then ''/'' else [])
           | before' \<Rightarrow> Some (join_segments (rev before'))))"

text \<open>\<^verbatim>\<open>str::lines\<close>: a line ends in LF or CR LF, the last one may be unterminated.\<close>

definition strip_cr :: "string \<Rightarrow> string" where
  "strip_cr l = (if l \<noteq> [] \<and> last l = CHR 0x0D then butlast l else l)"

definition str_lines :: "string \<Rightarrow> string list" where
  "str_lines s =
     (let ps = split_on (\<lambda>c. c = CHR 0x0A) s
      in map strip_cr (butlast ps) @ (if last ps = [] then [] else [last ps]))"

definition strip_prefix :: "string \<Rightarrow> string \<Rightarrow> string option" where
  "strip_prefix p s = (if starts_with s p then Some (drop (length p) s) else None)"

fun find_map :: "('a \<Rightarrow> 'b option) \<Rightarrow> 'a list \<Rightarrow> 'b option" where
  "find_map f [] = None"
| "find_map f (x # xs) = (case f x of Some y \<Rightarrow> Some y | None \<Rightarrow> find_map f xs)"

text \<open>\<^verbatim>\<open>{}\<close> on an \<^verbatim>\<open>i64\<close>, a word read in two's complement.\<close>

definition i64_string :: "64 word \<Rightarrow> string" where
  "i64_string n = (if sint n < 0 then ''-'' @ dec_string (nat (- sint n)) else dec_string (nat (sint n)))"

text \<open>
  The calls on the file system: a query cannot change the world, a change returns the rendered error,
  if any, and the world afterwards.
\<close>

record 'w fs_env =
  fs_exists :: "string \<Rightarrow> 'w \<Rightarrow> bool"
  fs_read_to_string :: "string \<Rightarrow> 'w \<Rightarrow> string + string"
  fs_create_dir_all :: "string \<Rightarrow> 'w \<Rightarrow> string option \<times> 'w"
  fs_write :: "string \<Rightarrow> string \<Rightarrow> 'w \<Rightarrow> string option \<times> 'w"

text \<open>
  \<^verbatim>\<open>Path::file_name\<close>, and its split at the last dot: a name without a dot, or whose only dot
  comes first, is all stem.
\<close>

definition path_file_name :: "string \<Rightarrow> string option" where
  "path_file_name p =
     (let cs = path_components p in if cs = [] \<or> last cs = ''..'' then None else Some (last cs))"

definition rsplit_file_at_dot :: "string \<Rightarrow> string option \<times> string option" where
  "rsplit_file_at_dot f =
     (let after = rev (takeWhile (\<lambda>c. c \<noteq> CHR ''.'') (rev f));
          before = dropWhile (\<lambda>c. c \<noteq> CHR ''.'') (rev f)
      in if f = ''..'' then (Some f, None)
         else if before = [] then (None, Some after)
         else if tl before = [] then (Some f, None)
         else (Some (rev (tl before)), Some after))"

definition path_file_stem :: "string \<Rightarrow> string option" where
  "path_file_stem p =
     (case path_file_name p of
        None \<Rightarrow> None
      | Some f \<Rightarrow> (case rsplit_file_at_dot f of (Some before, _) \<Rightarrow> Some before | (None, after) \<Rightarrow> after))"

definition path_extension :: "string \<Rightarrow> string option" where
  "path_extension p =
     (case path_file_name p of
        None \<Rightarrow> None
      | Some f \<Rightarrow> (case rsplit_file_at_dot f of (Some before, after) \<Rightarrow> after | (None, _) \<Rightarrow> None))"

text \<open>
  \<^verbatim>\<open>from_utf8_lossy\<close>: each maximal piece that is no character, a byte that starts none or a
  truncated sequence, becomes one U+FFFD. \<open>utf8_chunk\<close> is the length of the piece at the front and
  whether it is a character.
\<close>

fun utf8_chunk :: "bytes \<Rightarrow> nat \<times> bool" where
  "utf8_chunk [] = (1, False)"
| "utf8_chunk (b # bs) =
     (if utf8_width b = 0 then (1, False)
      else if utf8_width b = 1 then (1, True)
      else case bs of
        [] \<Rightarrow> (1, False)
      | c1 # r \<Rightarrow>
          if \<not> utf8_second b c1 then (1, False)
          else if utf8_width b = 2 then (2, True)
          else (case r of
            [] \<Rightarrow> (2, False)
          | c2 # r' \<Rightarrow>
              if \<not> utf8_cont c2 then (2, False)
              else if utf8_width b = 3 then (3, True)
              else (case r' of
                [] \<Rightarrow> (3, False)
              | c3 # _ \<Rightarrow> if utf8_cont c3 then (4, True) else (3, False))))"

lemma utf8_chunk_pos: "0 < fst (utf8_chunk bs)"
  by (cases bs) (simp_all split: list.split)

function from_utf8_lossy :: "bytes \<Rightarrow> bytes" where
  "from_utf8_lossy bs =
     (if bs = [] then []
      else case utf8_chunk bs of
        (n, ok) \<Rightarrow> (if ok then take n bs else [0xEF, 0xBF, 0xBD]) @ from_utf8_lossy (drop n bs))"
  by auto
termination
proof (relation "measure length")
  fix bs :: bytes and n ok
  assume ne: "bs \<noteq> []" and p: "(n, ok) = utf8_chunk bs"
  have "0 < n" using utf8_chunk_pos [of bs] p by (metis fst_conv)
  with ne show "(drop n bs, bs) \<in> measure length" by simp
qed simp

declare from_utf8_lossy.simps [simp del]

definition os_to_str :: "string \<Rightarrow> string option" where
  "os_to_str s = (if utf8_valid (str_bytes s) then Some s else None)"

definition bytes_str :: "bytes \<Rightarrow> string" where
  "bytes_str bs = map (\<lambda>b. char_of (unat b)) bs"

definition to_string_lossy :: "string \<Rightarrow> string" where
  "to_string_lossy s = bytes_str (from_utf8_lossy (str_bytes s))"

text \<open>\<^verbatim>\<open>str::trim\<close>: the characters of Unicode's White_Space, in UTF-8.\<close>

definition white_space :: "bytes list" where
  "white_space = [[0x09], [0x0A], [0x0B], [0x0C], [0x0D], [0x20], [0xC2, 0x85], [0xC2, 0xA0], [0xE1, 0x9A, 0x80],
     [0xE2, 0x80, 0x80], [0xE2, 0x80, 0x81], [0xE2, 0x80, 0x82], [0xE2, 0x80, 0x83], [0xE2, 0x80, 0x84],
     [0xE2, 0x80, 0x85], [0xE2, 0x80, 0x86], [0xE2, 0x80, 0x87], [0xE2, 0x80, 0x88], [0xE2, 0x80, 0x89],
     [0xE2, 0x80, 0x8A], [0xE2, 0x80, 0xA8], [0xE2, 0x80, 0xA9], [0xE2, 0x80, 0xAF], [0xE2, 0x81, 0x9F],
     [0xE3, 0x80, 0x80]]"

fun strip_front :: "'a list list \<Rightarrow> nat \<Rightarrow> 'a list \<Rightarrow> 'a list" where
  "strip_front ws 0 xs = xs"
| "strip_front ws (Suc fuel) xs =
     (case find (starts_with xs) ws of None \<Rightarrow> xs | Some p \<Rightarrow> strip_front ws fuel (drop (length p) xs))"

definition str_trim :: "bytes \<Rightarrow> bytes" where
  "str_trim bs =
     (let front = strip_front white_space (length bs) bs
      in rev (strip_front (map rev white_space) (length front) (rev front)))"

section \<open>Paths\<close>

lemma split_on_snoc_piece:
  assumes "\<forall>x \<in> set ys. \<not> P x" and "P s"
  shows "split_on P (xs @ s # ys) = split_on P xs @ [ys]"
proof (induction xs)
  case Nil
  then show ?case using assms by (simp add: split_on_no_sep)
next
  case (Cons x xs)
  then show ?case by (cases "split_on P xs") simp_all
qed

lemma join_segments_snoc: "ss \<noteq> [] \<Longrightarrow> join_segments (ss @ [s]) = join_segments ss @ ''/'' @ s"
  by (induction ss rule: join_segments.induct) auto

lemma join_split: "join_segments (split_on (\<lambda>c. c = CHR ''/'') p) = p"
proof (induction p)
  case (Cons c p)
  obtain y ys where "split_on (\<lambda>c. c = CHR ''/'') p = y # ys"
    by (metis list.exhaust split_on_nonempty)
  with Cons show ?case by (cases ys) simp_all
qed simp

lemma last_segment:
  "last (split_on (\<lambda>c. c = CHR ''/'') p) = [] \<longleftrightarrow> p = [] \<or> last p = CHR ''/''"
proof (induction p)
  case (Cons c p)
  obtain y ys where s: "split_on (\<lambda>c. c = CHR ''/'') p = y # ys"
    by (metis list.exhaust split_on_nonempty)
  show ?case
  proof (cases "p = []")
    case False
    with Cons s join_split [of p] show ?thesis by (cases ys) auto
  qed auto
qed simp

text \<open>A plain component is taken off again by \<^verbatim>\<open>parent\<close>, whatever it was joined to: this is why a
  directory next to another is found through its parent.\<close>

definition plain_component :: "string \<Rightarrow> bool" where
  "plain_component s \<longleftrightarrow> s \<noteq> [] \<and> s \<noteq> ''.'' \<and> CHR ''/'' \<notin> set s"

lemma path_segments_join:
  assumes "plain_component s" and "p \<noteq> []" and "last p \<noteq> CHR ''/''"
  shows "path_segments (path_join p s) = path_segments p @ [s]"
proof -
  have "\<not> starts_with s ''/''"
    using assms(1) by (cases s) (auto simp: plain_component_def starts_with_def)
  moreover have "\<forall>x \<in> set s. \<not> x = CHR ''/''" using assms(1) by (auto simp: plain_component_def)
  ultimately show ?thesis
    using assms(2,3) split_on_snoc_piece [of s "\<lambda>c. c = CHR ''/''" "CHR ''/''" p]
    by (simp add: path_join_def path_segments_def)
qed

lemma parent_of_join:
  assumes "plain_component s" and "p \<noteq> []" and "\<not> blank_segment (last (path_segments p))"
  shows "path_parent (path_join p s) = Some p"
proof -
  have "last p \<noteq> CHR ''/''"
    using assms(2,3) last_segment [of p] by (auto simp: path_segments_def blank_segment_def)
  then have segs: "path_segments (path_join p s) = path_segments p @ [s]"
    using path_segments_join assms(1,2) by blast
  have ne: "path_segments p \<noteq> []" by (simp add: path_segments_def)
  then have "dropWhile blank_segment (rev (path_segments p)) = rev (path_segments p)"
    using assms(3) by (cases "rev (path_segments p)") (auto simp: rev_swap)
  moreover have "\<not> blank_segment s" using assms(1) by (simp add: plain_component_def blank_segment_def)
  ultimately have "path_parent (path_join p s) = Some (join_segments (rev (rev (path_segments p))))"
    using ne by (cases "rev (path_segments p)") (simp_all add: path_parent_def segs)
  then show ?thesis using join_split [of p] by (simp add: path_segments_def)
qed

section \<open>Text\<close>

lemma bytes_str_str_bytes [simp]: "bytes_str (str_bytes s) = s"
proof -
  have "unat (of_char c :: u8) = of_char c" for c
    unfolding of_nat_of_char [of c, where ?'a = u8, symmetric] by (simp add: unsigned_of_nat take_bit_eq_mod)
  then have "char_of (unat (of_char c :: u8)) = c" for c by simp
  then show ?thesis by (simp add: bytes_str_def str_bytes_def comp_def)
qed

text \<open>Text that is already UTF-8 is left alone.\<close>

lemma utf8_chunk_valid:
  assumes "utf8_valid bs" and "bs \<noteq> []"
  shows "\<exists>n. utf8_chunk bs = (n, True) \<and> utf8_valid (drop n bs)"
proof -
  obtain b r where bs: "bs = b # r" using assms(2) by (cases bs) auto
  then show ?thesis
    using assms(1) utf8_valid.simps(2) [of b r] by (auto simp del: utf8_valid.simps split: list.splits if_splits)
qed

lemma from_utf8_lossy_valid [simp]: "utf8_valid bs \<Longrightarrow> from_utf8_lossy bs = bs"
proof (induction bs rule: from_utf8_lossy.induct)
  case (1 bs)
  show ?case
  proof (cases "bs = []")
    case False
    with 1 obtain n where n: "utf8_chunk bs = (n, True)" "utf8_valid (drop n bs)"
      using utf8_chunk_valid by blast
    with 1 False have "from_utf8_lossy (drop n bs) = drop n bs" by simp
    with n False show ?thesis by (subst from_utf8_lossy.simps) simp
  qed (simp add: from_utf8_lossy.simps)
qed

lemma to_string_lossy_valid [simp]: "utf8_valid (str_bytes s) \<Longrightarrow> to_string_lossy s = s"
  by (simp add: to_string_lossy_def)

text \<open>As many turns as there are bytes are enough to strip: what is left starts with no white space.\<close>

lemma strip_front_done:
  assumes "length xs \<le> fuel" and "[] \<notin> set ws"
  shows "find (starts_with (strip_front ws fuel xs)) ws = None"
  using assms(1)
proof (induction fuel arbitrary: xs)
  case 0
  then have "xs = []" by simp
  with assms(2) show ?case by (auto simp: find_None_iff starts_with_def)
next
  case (Suc fuel)
  show ?case
  proof (cases "find (starts_with xs) ws")
    case (Some p)
    then have "p \<in> set ws" "starts_with xs p" by (auto simp: find_Some_iff)
    then have "0 < length p" "length p \<le> length xs" using assms(2) by (auto simp: starts_with_iff)
    then have "length (drop (length p) xs) \<le> fuel" using Suc.prems unfolding length_drop by linarith
    from Suc.IH [OF this] Some show ?thesis by simp
  qed simp
qed

section \<open>File names\<close>

text \<open>A name as \<^verbatim>\<open>read_dir\<close> returns it.\<close>

definition file_name_ok :: "string \<Rightarrow> bool" where
  "file_name_ok s \<longleftrightarrow> plain_component s \<and> s \<noteq> ''..''"

lemma path_file_name_join:
  assumes "file_name_ok s" and "p \<noteq> []" and "last p \<noteq> CHR ''/''"
  shows "path_file_name (path_join p s) = Some s"
  using assms path_segments_join [of s p]
  by (simp add: path_file_name_def path_components_def file_name_ok_def plain_component_def blank_segment_def)

lemma rsplit_at_last_dot:
  assumes "b \<noteq> []" and "CHR ''.'' \<notin> set e" and "b @ CHR ''.'' # e \<noteq> ''..''"
  shows "rsplit_file_at_dot (b @ CHR ''.'' # e) = (Some b, Some e)"
proof -
  have "\<forall>c \<in> set (rev e). c \<noteq> CHR ''.''" using assms(2) by auto
  then have "takeWhile (\<lambda>c. c \<noteq> CHR ''.'') (rev e @ CHR ''.'' # rev b) = rev e"
    "dropWhile (\<lambda>c. c \<noteq> CHR ''.'') (rev e @ CHR ''.'' # rev b) = CHR ''.'' # rev b"
    by (rule takeWhile_append_sep dropWhile_append_sep; simp)+
  then show ?thesis using assms(1,3) by (simp add: rsplit_file_at_dot_def Let_def)
qed

lemma rsplit_at_dot_cases:
  assumes "rsplit_file_at_dot f = (Some b, Some e)"
  shows "f = b @ CHR ''.'' # e \<and> b \<noteq> [] \<and> CHR ''.'' \<notin> set e"
proof -
  let ?p = "\<lambda>c. c \<noteq> CHR ''.''"
  have e: "e = rev (takeWhile ?p (rev f))" and b: "b = rev (tl (dropWhile ?p (rev f)))"
    and ne: "dropWhile ?p (rev f) \<noteq> []" "tl (dropWhile ?p (rev f)) \<noteq> []"
    using assms by (auto simp: rsplit_file_at_dot_def Let_def split: if_splits)
  have "hd (dropWhile ?p (rev f)) = CHR ''.''" using hd_dropWhile [OF ne(1)] by simp
  then have "rev f = takeWhile ?p (rev f) @ CHR ''.'' # tl (dropWhile ?p (rev f))"
    using ne(1) by (metis hd_Cons_tl takeWhile_dropWhile_id)
  then have "rev f = rev e @ CHR ''.'' # rev b" using e b by simp
  then have "f = b @ CHR ''.'' # e" by (metis (no_types, lifting) append_assoc append_Cons append_Nil rev_append rev.simps(2) rev_rev_ident)
  moreover have "CHR ''.'' \<notin> set e" unfolding e by (auto dest: set_takeWhileD)
  ultimately show ?thesis using ne(2) b by simp
qed

end
