(* ===== verification/Cgroup_Mem.thy ===== *)
theory Cgroup_Mem
  imports Rust_Os
begin

text \<open>
  Memory pressure through cgroups, \<^verbatim>\<open>kernel/src/cgroup_mem.rs\<close>: finding the hierarchy the process
  lives in (v1, v2 mounted at the standard place, v2 in hybrid mode), creating the fault's cgroup and
  moving the target into it, and writing the limit. The file system is the parameter \<open>fs_env\<close>; no
  law about it is assumed.
\<close>

section \<open>Definitions\<close>

datatype pressure_mode = Hard | Soft

record cgroup_injector =
  cg_id :: string
  cg_pid :: u32
  cg_limit_bytes :: u64
  cg_mode :: pressure_mode
  cg_setup :: "(string \<times> string \<times> string) option"
  cg_armed :: bool

definition CgroupMemoryPressureInjector_new ::
  "string \<Rightarrow> u32 \<Rightarrow> u64 \<Rightarrow> pressure_mode \<Rightarrow> cgroup_injector" where
  "CgroupMemoryPressureInjector_new i pid limit_bytes mode =
     \<lparr>cg_id = i, cg_pid = pid, cg_limit_bytes = limit_bytes, cg_mode = mode, cg_setup = None, cg_armed = False\<rparr>"

definition CgroupMemoryPressureInjector_locate_subtree ::
  "'w fs_env \<Rightarrow> cgroup_injector \<Rightarrow> 'w \<Rightarrow> (string, harness_error) outcome" where
  "CgroupMemoryPressureInjector_locate_subtree env i w =
     (let v1_root = ''/sys/fs/cgroup/memory''
      in if fs_exists env (path_join v1_root ''memory.limit_in_bytes'') w then Ok v1_root
         else case fs_read_to_string env ''/proc/self/cgroup'' w of
           Inl e \<Rightarrow> Err (Io e)
         | Inr our_cgroup \<Rightarrow>
             (case find_map (strip_prefix ''0::'') (str_lines our_cgroup) of
                None \<Rightarrow> Err (ArmFailed (cg_id i) ''no v2 cgroup entry in /proc/self/cgroup'')
              | Some v2 \<Rightarrow>
                  let v2_path = dropWhile (\<lambda>c. c = CHR ''/'') v2;
                      v2_root = path_join ''/sys/fs/cgroup'' v2_path;
                      hybrid_root = path_join ''/sys/fs/cgroup/unified'' v2_path
                  in if fs_exists env ''/sys/fs/cgroup/cgroup.controllers'' w
                        \<and> fs_exists env (path_join v2_root ''memory.max'') w
                     then Ok v2_root
                     else if fs_exists env (path_join hybrid_root ''memory.max'') w then Ok hybrid_root
                     else Err (ArmFailed (cg_id i)
                       ''no usable memory controller on either v1 or v2 cgroup hierarchy'')))"

definition limit_file_of :: "bool \<Rightarrow> pressure_mode \<Rightarrow> string \<times> string" where
  "limit_file_of is_v1 mode =
     (case (is_v1, mode) of
        (True, Hard) \<Rightarrow> (''memory.limit_in_bytes'', ''9223372036854775807'')
      | (True, Soft) \<Rightarrow> (''memory.soft_limit_in_bytes'', ''9223372036854775807'')
      | (False, Hard) \<Rightarrow> (''memory.max'', ''max'')
      | (False, Soft) \<Rightarrow> (''memory.high'', ''max''))"

definition cgroup_parent_dir :: "bool \<Rightarrow> string \<Rightarrow> string" where
  "cgroup_parent_dir is_v1 subtree =
     (if is_v1 \<or> path_eq subtree ''/sys/fs/cgroup'' \<or> path_eq subtree ''/sys/fs/cgroup/unified''
      then subtree
      else case path_parent subtree of Some p \<Rightarrow> p | None \<Rightarrow> subtree)"

definition CgroupMemoryPressureInjector_ensure_setup ::
  "'w fs_env \<Rightarrow> (cgroup_injector, 'w) fault_call" where
  "CgroupMemoryPressureInjector_ensure_setup env i w =
     (if cg_setup i \<noteq> None then (Ok (), i, w)
      else case CgroupMemoryPressureInjector_locate_subtree env i w of
        Err e \<Rightarrow> (Err e, i, w)
      | Panic m \<Rightarrow> (Panic m, i, w)
      | Ok subtree \<Rightarrow>
          let is_v1 = fs_exists env (path_join subtree ''memory.limit_in_bytes'') w;
              (limit_file, unlimited) = limit_file_of is_v1 (cg_mode i);
              parent_dir = cgroup_parent_dir is_v1 subtree;
              child = path_join parent_dir (''blackswan-'' @ cg_id i)
          in case fs_create_dir_all env child w of
               (Some e, w1) \<Rightarrow> (Err (ArmFailed (cg_id i) (''creating cgroup '' @ child @ '': '' @ e)), i, w1)
             | (None, w1) \<Rightarrow>
                 let w2 = (if \<not> is_v1 \<and> \<not> fs_exists env (path_join child limit_file) w1
                           then snd (fs_write env (path_join parent_dir ''cgroup.subtree_control'') ''+memory'' w1)
                           else w1)
                 in case fs_write env (path_join child ''cgroup.procs'') (dec_string (unat (cg_pid i))) w2 of
                      (Some e, w3) \<Rightarrow>
                        (Err (ArmFailed (cg_id i)
                           (''moving pid '' @ dec_string (unat (cg_pid i)) @ '' into cgroup: '' @ e)), i, w3)
                    | (None, w3) \<Rightarrow> (Ok (), i\<lparr>cg_setup := Some (child, limit_file, unlimited)\<rparr>, w3))"

definition CgroupMemoryPressureInjector_arm ::
  "'w fs_env \<Rightarrow> fault_context \<Rightarrow> (cgroup_injector, 'w) fault_call" where
  "CgroupMemoryPressureInjector_arm env ctx i w =
     (case CgroupMemoryPressureInjector_ensure_setup env i w of
        (Err e, i1, w1) \<Rightarrow> (Err e, i1, w1)
      | (Panic m, i1, w1) \<Rightarrow> (Panic m, i1, w1)
      | (Ok u, i1, w1) \<Rightarrow>
          (case cg_setup i1 of
             None \<Rightarrow> (Panic ''just set up above'', i1, w1)
           | Some (path, limit_file, _) \<Rightarrow>
               (case fs_write env (path_join path limit_file) (dec_string (unat (cg_limit_bytes i1))) w1 of
                  (Some e, w2) \<Rightarrow> (Err (ArmFailed (cg_id i1) (''writing '' @ limit_file @ '': '' @ e)), i1, w2)
                | (None, w2) \<Rightarrow> (Ok (), i1\<lparr>cg_armed := True\<rparr>, w2))))"

definition CgroupMemoryPressureInjector_disarm :: "'w fs_env \<Rightarrow> (cgroup_injector, 'w) fault_call" where
  "CgroupMemoryPressureInjector_disarm env i w =
     (case cg_setup i of
        None \<Rightarrow> (Ok (), i\<lparr>cg_armed := False\<rparr>, w)
      | Some (path, limit_file, unlimited) \<Rightarrow>
          (case fs_write env (path_join path limit_file) unlimited w of
             (Some e, w') \<Rightarrow> (Err (DisarmFailed (cg_id i) (''writing '' @ limit_file @ '': '' @ e)), i, w')
           | (None, w') \<Rightarrow> (Ok (), i\<lparr>cg_armed := False\<rparr>, w')))"

definition cgroup_ops :: "'w fs_env \<Rightarrow> (cgroup_injector, 'w) injector_ops" where
  "cgroup_ops env = \<lparr>op_id = cg_id, op_arm = CgroupMemoryPressureInjector_arm env,
     op_disarm = CgroupMemoryPressureInjector_disarm env, op_is_armed = cg_armed\<rparr>"

section \<open>The contract\<close>

lemma locate_subtree_no_panic [panic_free]:
  "CgroupMemoryPressureInjector_locate_subtree env i w \<noteq> Panic m"
  by (auto simp: CgroupMemoryPressureInjector_locate_subtree_def Let_def split: sum.splits option.splits)

text \<open>The setup step, inverted: it fails with the injector unchanged, or it is done already, or it
  has created the cgroup and moved the target.\<close>

lemma ensure_setup_cases:
  assumes "CgroupMemoryPressureInjector_ensure_setup env i w = (r, i', w')"
  obtains (again) "cg_setup i \<noteq> None" "r = Ok ()" "i' = i" "w' = w"
  | (fails) e where "r = Err e" "i' = i"
  | (fresh) subtree is_v1 child limit_file unlimited w2 where "cg_setup i = None" "r = Ok ()"
      "CgroupMemoryPressureInjector_locate_subtree env i w = Ok subtree"
      "is_v1 = fs_exists env (path_join subtree ''memory.limit_in_bytes'') w"
      "limit_file_of is_v1 (cg_mode i) = (limit_file, unlimited)"
      "child = path_join (cgroup_parent_dir is_v1 subtree) (''blackswan-'' @ cg_id i)"
      "fs_write env (path_join child ''cgroup.procs'') (dec_string (unat (cg_pid i))) w2 = (None, w')"
      "i' = i\<lparr>cg_setup := Some (child, limit_file, unlimited)\<rparr>"
proof (cases "cg_setup i = None")
  case False
  then show ?thesis
    using assms by (intro again) (simp_all add: CgroupMemoryPressureInjector_ensure_setup_def)
next
  case True
  note su = assms [unfolded CgroupMemoryPressureInjector_ensure_setup_def]
  show ?thesis
  proof (cases "CgroupMemoryPressureInjector_locate_subtree env i w")
    case (Err e)
    with su True show ?thesis by (intro fails [of e]) simp_all
  next
    case (Panic m)
    then show ?thesis by (simp add: panic_free)
  next
    case (Ok subtree)
    define is_v1 where v1: "is_v1 = fs_exists env (path_join subtree ''memory.limit_in_bytes'') w"
    obtain limit_file unlimited where lf: "limit_file_of is_v1 (cg_mode i) = (limit_file, unlimited)" by fastforce
    define dir where dir: "dir = cgroup_parent_dir is_v1 subtree"
    define child where child: "child = path_join dir (''blackswan-'' @ cg_id i)"
    obtain c w1 where create: "fs_create_dir_all env child w = (c, w1)" by fastforce
    define w2 where w2: "w2 = (if \<not> is_v1 \<and> \<not> fs_exists env (path_join child limit_file) w1
        then snd (fs_write env (path_join dir ''cgroup.subtree_control'') ''+memory'' w1) else w1)"
    obtain d w3 where procs: "fs_write env (path_join child ''cgroup.procs'') (dec_string (unat (cg_pid i))) w2
        = (d, w3)" by fastforce
    note su = su [unfolded Ok outcome.case Let_def, folded v1, unfolded lf prod.case, folded dir, folded child,
        unfolded create prod.case, folded w2, unfolded procs prod.case]
    show ?thesis
    proof (cases "c = None \<and> d = None")
      case True
      with su \<open>cg_setup i = None\<close> have "r = Ok ()" "w' = w3" "i' = i\<lparr>cg_setup := Some (child, limit_file, unlimited)\<rparr>"
        by simp_all
      with fresh [OF \<open>cg_setup i = None\<close> _ Ok v1 lf] True procs dir child show ?thesis by simp
    next
      case False
      with su \<open>cg_setup i = None\<close> have "i' = i \<and> (\<exists>e. r = Err e)" by (auto split: option.splits)
      with fails show ?thesis by blast
    qed
  qed
qed

lemma cgroup_arm_cases:
  assumes "CgroupMemoryPressureInjector_arm env ctx i w = (r, i', w')"
  obtains (ok) i1 w1 child limit_file unlimited where "r = Ok ()"
      "CgroupMemoryPressureInjector_ensure_setup env i w = (Ok (), i1, w1)"
      "cg_setup i1 = Some (child, limit_file, unlimited)" "cg_limit_bytes i1 = cg_limit_bytes i"
      "cg_id i1 = cg_id i" "cg_armed i1 = cg_armed i"
      "fs_write env (path_join child limit_file) (dec_string (unat (cg_limit_bytes i))) w1 = (None, w')"
      "i' = i1\<lparr>cg_armed := True\<rparr>"
  | (err) e where "r = Err e" "cg_id i' = cg_id i" "cg_armed i' = cg_armed i"
      "cg_setup i \<noteq> None \<Longrightarrow> i' = i"
proof -
  obtain s i1 w1 where su: "CgroupMemoryPressureInjector_ensure_setup env i w = (s, i1, w1)"
    by (metis prod_cases3)
  note arm = assms [unfolded CgroupMemoryPressureInjector_arm_def su prod.case]
  have same: "cg_id i1 = cg_id i \<and> cg_armed i1 = cg_armed i \<and> cg_limit_bytes i1 = cg_limit_bytes i
      \<and> (cg_setup i \<noteq> None \<longrightarrow> i1 = i) \<and> (s = Ok () \<longrightarrow> cg_setup i1 \<noteq> None) \<and> \<not> is_panic s"
    using su by (cases rule: ensure_setup_cases) auto
  show thesis
  proof (cases s)
    case (Ok u)
    with same obtain child limit_file unlimited where st: "cg_setup i1 = Some (child, limit_file, unlimited)"
      by auto
    obtain c w2 where wr: "fs_write env (path_join child limit_file) (dec_string (unat (cg_limit_bytes i1))) w1
        = (c, w2)" by fastforce
    note arm = arm [unfolded Ok outcome.case st option.case prod.case wr]
    show ?thesis
    proof (cases c)
      case None
      with arm have "r = Ok ()" "i' = i1\<lparr>cg_armed := True\<rparr>" "w' = w2" by simp_all
      with ok [OF _ _ st] su Ok same wr None show ?thesis by simp
    next
      case (Some e)
      with arm have "i' = i1" "\<exists>e. r = Err e" by auto
      with err same show ?thesis by blast
    qed
  next
    case (Err e)
    with arm have "i' = i1" "r = Err e" by simp_all
    with err same show ?thesis by blast
  next
    case (Panic m)
    with same show ?thesis by simp
  qed
qed

interpretation cgroup: idempotent_injector "cgroup_ops env" for env
proof (rule idempotent_injectorI [where ready = "\<lambda>i. cg_setup i \<noteq> None"], unfold cgroup_ops_def injector_ops.simps, goal_cases)
  case (1 c i w r i' w')
  then show ?case by (cases rule: cgroup_arm_cases) auto
next
  case (2 c i w)
  then show ?case
    by (auto simp: CgroupMemoryPressureInjector_arm_def CgroupMemoryPressureInjector_ensure_setup_def
        split: prod.splits option.splits)
next
  case (3 i w r i' w')
  then show ?case
    by (auto simp: CgroupMemoryPressureInjector_disarm_def split: prod.splits option.splits)
next
  case (4 i w)
  then show ?case
    by (auto simp: CgroupMemoryPressureInjector_disarm_def split: prod.splits option.splits)
qed

text \<open>Once set up, the cgroup and the limit file stay, whatever is called in whatever world.\<close>

lemma cgroup_setup_stays:
  assumes "cg_setup i = Some s"
  shows "cg_setup (after_calls (cgroup_ops env) ctx cs i) = Some s"
proof (rule after_calls_inv [where P = "\<lambda>i. cg_setup i = Some s"])
  fix i w r i' w'
  assume "cg_setup i = Some s" "op_arm (cgroup_ops env) ctx i w = (r, i', w')"
  then show "cg_setup i' = Some s"
    by (auto simp: cgroup_ops_def CgroupMemoryPressureInjector_arm_def CgroupMemoryPressureInjector_ensure_setup_def
        split: prod.splits option.splits)
next
  fix i w r i' w'
  assume "cg_setup i = Some s" "op_disarm (cgroup_ops env) i w = (r, i', w')"
  then show "cg_setup i' = Some s"
    by (auto simp: cgroup_ops_def CgroupMemoryPressureInjector_disarm_def split: prod.splits option.splits)
qed fact

section \<open>Properties\<close>

text \<open>
  C22: the limit is lifted where it was set. After a first successful arm, and after any further arms
  and disarms, successful or not, in any states of the file system (the hierarchy may even be
  remounted), a successful disarm writes the ``unlimited'' value that belongs to the file the first
  arm wrote the limit to, into that same file.
\<close>

theorem cgroup_one_limit_file:
  assumes "cg_setup i = None" and "CgroupMemoryPressureInjector_arm env ctx i w = (Ok u, i1, w1)"
    and "CgroupMemoryPressureInjector_disarm env (after_calls (cgroup_ops env) ctx' cs i1) w2 = (Ok u', i3, w3)"
  shows "\<exists>subtree dir limit_file unlimited w0.
     CgroupMemoryPressureInjector_locate_subtree env i w = Ok subtree
     \<and> (limit_file, unlimited) = limit_file_of (fs_exists env (path_join subtree ''memory.limit_in_bytes'') w) (cg_mode i)
     \<and> fs_write env (path_join dir limit_file) (dec_string (unat (cg_limit_bytes i))) w0 = (None, w1)
     \<and> fs_write env (path_join dir limit_file) unlimited w2 = (None, w3)"
  using assms(2)
proof (cases rule: cgroup_arm_cases)
  case (ok j w0 child limit_file unlimited)
  have "\<exists>subtree. CgroupMemoryPressureInjector_locate_subtree env i w = Ok subtree
      \<and> (limit_file, unlimited) = limit_file_of (fs_exists env (path_join subtree ''memory.limit_in_bytes'') w) (cg_mode i)"
    using ok(2)
  proof (cases rule: ensure_setup_cases)
    case (fresh subtree is_v1 child' limit_file' unlimited' v)
    have "limit_file' = limit_file" "unlimited' = unlimited" using fresh(8) ok(3) by simp_all
    with fresh(3-5) show ?thesis by metis
  qed (use assms(1) in simp_all)
  moreover have "cg_setup (after_calls (cgroup_ops env) ctx' cs i1) = Some (child, limit_file, unlimited)"
    using ok(3,8) by (intro cgroup_setup_stays) simp
  then have "fs_write env (path_join child limit_file) unlimited w2 = (None, w3)"
    using assms(3) by (auto simp: CgroupMemoryPressureInjector_disarm_def split: prod.splits option.splits)
  ultimately show ?thesis using ok(7) by blast
qed simp

text \<open>A file system for the instances: a process in a nested v2 cgroup whose controller is delegated;
  the world is the log of writes, latest first.\<close>

definition container_fs :: "(string \<times> string) list fs_env" where
  "container_fs =
     \<lparr>fs_exists = \<lambda>p w. p \<in> set [''/sys/fs/cgroup/cgroup.controllers'', ''/sys/fs/cgroup/app/oms/memory.max'',
                                  ''/sys/fs/cgroup/app/blackswan-mem/memory.max''],
      fs_read_to_string = \<lambda>p w. Inr (''0::/app/oms'' @ [CHR 0x0A]),
      fs_create_dir_all = \<lambda>p w. (None, w),
      fs_write = \<lambda>p c w. (None, (p, c) # w)\<rparr>"

lemma dec_string_demo: "dec_string 7 = ''7''" "dec_string 64 = ''64''"
  by (code_simp, code_simp)

lemma container_locate:
  "CgroupMemoryPressureInjector_locate_subtree container_fs i w = Ok ''/sys/fs/cgroup/app/oms''"
  by (simp add: CgroupMemoryPressureInjector_locate_subtree_def container_fs_def path_join_def starts_with_def
      strip_prefix_def str_lines_def strip_cr_def)

lemma container_setup:
  "CgroupMemoryPressureInjector_ensure_setup container_fs (CgroupMemoryPressureInjector_new ''mem'' 7 64 Hard) [] =
     (Ok (), (CgroupMemoryPressureInjector_new ''mem'' 7 64 Hard)
        \<lparr>cg_setup := Some (''/sys/fs/cgroup/app/blackswan-mem'', ''memory.max'', ''max'')\<rparr>,
      [(''/sys/fs/cgroup/app/blackswan-mem/cgroup.procs'', ''7'')])"
  unfolding CgroupMemoryPressureInjector_ensure_setup_def container_locate
  by (simp add: CgroupMemoryPressureInjector_new_def container_fs_def path_join_def starts_with_def limit_file_of_def cgroup_parent_dir_def path_eq_def path_components_def
      path_segments_def blank_segment_def path_parent_def dec_string_demo)

lemma container_arm:
  "CgroupMemoryPressureInjector_arm container_fs ctx (CgroupMemoryPressureInjector_new ''mem'' 7 64 Hard) [] =
     (Ok (), (CgroupMemoryPressureInjector_new ''mem'' 7 64 Hard)
        \<lparr>cg_setup := Some (''/sys/fs/cgroup/app/blackswan-mem'', ''memory.max'', ''max''), cg_armed := True\<rparr>,
      [(''/sys/fs/cgroup/app/blackswan-mem/memory.max'', ''64''), (''/sys/fs/cgroup/app/blackswan-mem/cgroup.procs'', ''7'')])"
  unfolding CgroupMemoryPressureInjector_arm_def container_setup
  by (simp add: CgroupMemoryPressureInjector_new_def container_fs_def path_join_def starts_with_def dec_string_demo)

theorem cgroup_one_limit_file_witness:
  "let i = CgroupMemoryPressureInjector_new ''mem'' 7 64 Hard;
       ctx = \<lparr>ctx_clock = SystemClock, ctx_seed = 1\<rparr>;
       (r, i1, w1) = CgroupMemoryPressureInjector_arm container_fs ctx i [];
       i2 = after_calls (cgroup_ops container_fs) ctx [(Disarm, []), (Arm, w1)] i1;
       (r', i3, w3) = CgroupMemoryPressureInjector_disarm container_fs i2 w1
   in fst (hd w1) = ''/sys/fs/cgroup/app/blackswan-mem/memory.max''
      \<and> hd w3 = (''/sys/fs/cgroup/app/blackswan-mem/memory.max'', ''max'')"
proof -
  let ?i = "CgroupMemoryPressureInjector_new ''mem'' 7 64 Hard"
  let ?ctx = "\<lparr>ctx_clock = SystemClock, ctx_seed = 1\<rparr>"
  let ?log = "[(''/sys/fs/cgroup/app/blackswan-mem/memory.max'', ''64''), (''/sys/fs/cgroup/app/blackswan-mem/cgroup.procs'', ''7'')]"
  let ?j = "?i\<lparr>cg_setup := Some (''/sys/fs/cgroup/app/blackswan-mem'', ''memory.max'', ''max''), cg_armed := True\<rparr>"
  let ?k = "after_calls (cgroup_ops container_fs) ?ctx [(Disarm, []), (Arm, ?log)] ?j"
  have fresh: "cg_setup ?i = None" "cg_mode ?i = Hard" "cg_limit_bytes ?i = 64"
    by (simp_all add: CgroupMemoryPressureInjector_new_def)
  have ok: "fst (CgroupMemoryPressureInjector_disarm container_fs k w) = Ok ()" for k w
    by (simp add: CgroupMemoryPressureInjector_disarm_def container_fs_def split: option.split)
  obtain k' w3 where dis: "CgroupMemoryPressureInjector_disarm container_fs ?k ?log = (Ok (), k', w3)"
    using ok [of ?k ?log] by (metis prod.collapse)
  from cgroup_one_limit_file [OF fresh(1) container_arm dis]
  have "w3 = (''/sys/fs/cgroup/app/blackswan-mem/memory.max'', ''max'') # ?log"
    unfolding fresh container_locate
    by (auto simp: container_fs_def limit_file_of_def path_join_def [of "''/sys/fs/cgroup/app/oms''"] starts_with_def)
  then show ?thesis
    unfolding Let_def container_arm prod.case dis by simp
qed



end
