(* ===== verification/Time_Skew.thy ===== *)
theory Time_Skew
  imports Rust_Os
begin

text \<open>
  Clock skew through time namespaces, \<^verbatim>\<open>kernel/src/time_skew.rs\<close>: arming launches a supervised
  process inside a fresh namespace, disarming kills it. The system calls are the parameter
  \<open>proc_env\<close>; \<open>Command_spawn\<close> is what \<^verbatim>\<open>std::process::Command::spawn\<close> does with them, in the order
  it does it: pipe, fork, the \<^verbatim>\<open>pre_exec\<close> hook in the child, exec, with a failure of the hook or of
  exec reported to the caller of \<^verbatim>\<open>spawn\<close>. An error is its rendered text.
\<close>

section \<open>Definitions\<close>

record child =
  child_id :: u32
  child_stdout :: "nat option"

record time_skew_injector =
  ts_id :: string
  ts_argv :: "string list"
  ts_monotonic_offset_secs :: "64 word"
  ts_boottime_offset_secs :: "64 word"
  ts_capture_stdout :: bool
  ts_child :: "child option"

record 'w proc_env =
  pe_pipe :: "'w \<Rightarrow> (string + nat) \<times> 'w"
  pe_fork :: "'w \<Rightarrow> (string + u32) \<times> 'w"
  pe_unshare_newtime :: "'w \<Rightarrow> string option \<times> 'w"
  pe_open_wronly :: "string \<Rightarrow> 'w \<Rightarrow> (string + nat) \<times> 'w"
  pe_write :: "nat \<Rightarrow> bytes \<Rightarrow> 'w \<Rightarrow> (string + nat) \<times> 'w"
  pe_close :: "nat \<Rightarrow> 'w \<Rightarrow> 'w"
  pe_exec :: "string \<Rightarrow> string list \<Rightarrow> 'w \<Rightarrow> string option \<times> 'w"
  pe_try_wait :: "u32 \<Rightarrow> 'w \<Rightarrow> (string + bool) \<times> 'w"
  pe_kill :: "u32 \<Rightarrow> 'w \<Rightarrow> string option \<times> 'w"
  pe_wait :: "u32 \<Rightarrow> 'w \<Rightarrow> 'w"

definition TimeSkewInjector_new ::
  "string \<Rightarrow> string list \<Rightarrow> 64 word \<Rightarrow> 64 word \<Rightarrow> time_skew_injector" where
  "TimeSkewInjector_new i argv monotonic boottime =
     \<lparr>ts_id = i, ts_argv = argv, ts_monotonic_offset_secs = monotonic, ts_boottime_offset_secs = boottime,
      ts_capture_stdout = False, ts_child = None\<rparr>"

definition TimeSkewInjector_pid :: "time_skew_injector \<Rightarrow> u32 option" where
  "TimeSkewInjector_pid i = map_option child_id (ts_child i)"

definition TimeSkewInjector_with_captured_stdout :: "time_skew_injector \<Rightarrow> time_skew_injector" where
  "TimeSkewInjector_with_captured_stdout i = i\<lparr>ts_capture_stdout := True\<rparr>"

definition TimeSkewInjector_take_stdout :: "time_skew_injector \<Rightarrow> nat option \<times> time_skew_injector" where
  "TimeSkewInjector_take_stdout i =
     (case ts_child i of
        None \<Rightarrow> (None, i)
      | Some c \<Rightarrow> (child_stdout c, i\<lparr>ts_child := Some (c\<lparr>child_stdout := None\<rparr>)\<rparr>))"

definition offsets_buf :: "time_skew_injector \<Rightarrow> bytes" where
  "offsets_buf i = str_bytes
     (''monotonic '' @ i64_string (ts_monotonic_offset_secs i) @ '' 0'' @ [CHR 0x0A]
      @ ''boottime '' @ i64_string (ts_boottime_offset_secs i) @ '' 0'' @ [CHR 0x0A])"

text \<open>The closure that runs in the child between fork and exec.\<close>

definition pre_exec :: "'w proc_env \<Rightarrow> bytes \<Rightarrow> 'w \<Rightarrow> string option \<times> 'w" where
  "pre_exec env buf w =
     (case pe_unshare_newtime env w of
        (Some e, w1) \<Rightarrow> (Some e, w1)
      | (None, w1) \<Rightarrow>
          (case pe_open_wronly env ''/proc/self/timens_offsets'' w1 of
             (Inl e, w2) \<Rightarrow> (Some e, w2)
           | (Inr fd, w2) \<Rightarrow>
               (case pe_write env fd buf w2 of
                  (ret, w3) \<Rightarrow>
                    let w4 = pe_close env fd w3
                    in case ret of Inl e \<Rightarrow> (Some e, w4) | Inr n \<Rightarrow> (None, w4))))"

definition Command_spawn ::
  "'w proc_env \<Rightarrow> string \<Rightarrow> string list \<Rightarrow> bool \<Rightarrow> ('w \<Rightarrow> string option \<times> 'w) \<Rightarrow> 'w \<Rightarrow> (string + child) \<times> 'w" where
  "Command_spawn env program args piped hook w =
     (case (if piped then (case pe_pipe env w of (Inl e, w1) \<Rightarrow> (Inl e, w1) | (Inr h, w1) \<Rightarrow> (Inr (Some h), w1))
            else (Inr None, w)) of
        (Inl e, w1) \<Rightarrow> (Inl e, w1)
      | (Inr out, w1) \<Rightarrow>
          (case pe_fork env w1 of
             (Inl e, w2) \<Rightarrow> (Inl e, w2)
           | (Inr pid, w2) \<Rightarrow>
               (case hook w2 of
                  (Some e, w3) \<Rightarrow> (Inl e, w3)
                | (None, w3) \<Rightarrow>
                    (case pe_exec env program args w3 of
                       (Some e, w4) \<Rightarrow> (Inl e, w4)
                     | (None, w4) \<Rightarrow> (Inr \<lparr>child_id = pid, child_stdout = out\<rparr>, w4)))))"

definition TimeSkewInjector_arm ::
  "'w proc_env \<Rightarrow> fault_context \<Rightarrow> (time_skew_injector, 'w) fault_call" where
  "TimeSkewInjector_arm env ctx i w =
     (if ts_child i \<noteq> None then (Ok (), i, w)
      else case ts_argv i of
        [] \<Rightarrow> (Err (ArmFailed (ts_id i) ''argv is empty, nothing to launch''), i, w)
      | program # args \<Rightarrow>
          (case Command_spawn env program args (ts_capture_stdout i) (pre_exec env (offsets_buf i)) w of
             (Inl e, w') \<Rightarrow> (Err (ArmFailed (ts_id i) (''spawning skewed process: '' @ e)), i, w')
           | (Inr c, w') \<Rightarrow> (Ok (), i\<lparr>ts_child := Some c\<rparr>, w')))"

definition TimeSkewInjector_disarm :: "'w proc_env \<Rightarrow> (time_skew_injector, 'w) fault_call" where
  "TimeSkewInjector_disarm env i w =
     (case ts_child i of
        None \<Rightarrow> (Ok (), i, w)
      | Some c \<Rightarrow>
          let i' = i\<lparr>ts_child := None\<rparr>
          in case pe_try_wait env (child_id c) w of
               (st, w1) \<Rightarrow>
                 if st = Inr True then (Ok (), i', w1)
                 else case pe_kill env (child_id c) w1 of
                        (Some e, w2) \<Rightarrow> (Err (DisarmFailed (ts_id i) (''killing skewed process: '' @ e)), i', w2)
                      | (None, w2) \<Rightarrow> (Ok (), i', pe_wait env (child_id c) w2))"

definition TimeSkewInjector_is_armed :: "time_skew_injector \<Rightarrow> bool" where
  "TimeSkewInjector_is_armed i \<longleftrightarrow> ts_child i \<noteq> None"

definition time_skew_ops :: "'w proc_env \<Rightarrow> (time_skew_injector, 'w) injector_ops" where
  "time_skew_ops env = \<lparr>op_id = ts_id, op_arm = TimeSkewInjector_arm env,
     op_disarm = TimeSkewInjector_disarm env, op_is_armed = TimeSkewInjector_is_armed\<rparr>"

section \<open>The contract\<close>

interpretation time_skew: idempotent_injector "time_skew_ops env" for env
proof (rule idempotent_injectorI [where ready = "\<lambda>i. True"], unfold time_skew_ops_def injector_ops.simps, goal_cases)
  case (1 c i w r i' w')
  then show ?case
    by (auto simp: TimeSkewInjector_arm_def TimeSkewInjector_is_armed_def
        split: if_splits list.splits prod.splits sum.splits)
next
  case (2 c i w)
  then show ?case by (simp add: TimeSkewInjector_arm_def TimeSkewInjector_is_armed_def)
next
  case (3 i w r i' w')
  then show ?case
    by (auto simp: TimeSkewInjector_disarm_def TimeSkewInjector_is_armed_def Let_def
        split: if_splits option.splits prod.splits)
next
  case (4 i w)
  then show ?case by (simp add: TimeSkewInjector_disarm_def TimeSkewInjector_is_armed_def)
qed

section \<open>Launching\<close>

lemma pre_exec_ok:
  assumes "pre_exec env buf w = (None, w')"
  shows "\<exists>w1 fd w2 n w3. pe_unshare_newtime env w = (None, w1)
     \<and> pe_open_wronly env ''/proc/self/timens_offsets'' w1 = (Inr fd, w2)
     \<and> pe_write env fd buf w2 = (Inr n, w3) \<and> w' = pe_close env fd w3"
  using assms by (auto simp: pre_exec_def Let_def split: prod.splits option.splits sum.splits)

lemma Command_spawn_ok:
  assumes "Command_spawn env program args piped hook w = (Inr c, w')"
  shows "\<exists>w1 w2 w3. pe_fork env w1 = (Inr (child_id c), w2) \<and> hook w2 = (None, w3)
     \<and> pe_exec env program args w3 = (None, w') \<and> (child_stdout c \<noteq> None \<longleftrightarrow> piped)
     \<and> (\<not> piped \<longrightarrow> w1 = w)"
  using assms
  by (auto simp: Command_spawn_def split: if_splits prod.splits option.splits sum.splits) blast+

section \<open>Properties\<close>


text \<open>System calls for the instances: the world is the log of the calls, and killing works or not.\<close>

definition logging_proc :: "bool \<Rightarrow> string list proc_env" where
  "logging_proc kill_works =
     \<lparr>pe_pipe = \<lambda>w. (Inr 5, w @ [''pipe'']), pe_fork = \<lambda>w. (Inr 7, w @ [''fork'']),
      pe_unshare_newtime = \<lambda>w. (None, w @ [''unshare'']), pe_open_wronly = \<lambda>p w. (Inr 3, w @ [''open'']),
      pe_write = \<lambda>fd b w. (Inr (length b), w @ [''write'']), pe_close = \<lambda>fd w. w @ [''close''],
      pe_exec = \<lambda>p a w. (None, w @ [''exec'']), pe_try_wait = \<lambda>p w. (Inr False, w @ [''try_wait'']),
      pe_kill = \<lambda>p w. (if kill_works then None else Some ''EPERM'', w @ [''kill'']),
      pe_wait = \<lambda>p w. w @ [''wait'']\<rparr>"


text \<open>
  A process that could not be killed is forgotten. \<^verbatim>\<open>disarm\<close> takes the child out of the injector
  before it kills it, so when killing fails the injector reports the error once, no longer counts as
  armed, and every later \<^verbatim>\<open>disarm\<close> succeeds without a system call, while the process may still run.
\<close>

lemma time_skew_failed_kill_is_forgotten:
  assumes "ts_child i = Some c" and "pe_try_wait env (child_id c) w = (st, w1)" and "st \<noteq> Inr True"
    and "pe_kill env (child_id c) w1 = (Some e, w2)"
  shows "\<exists>i'. TimeSkewInjector_disarm env i w
       = (Err (DisarmFailed (ts_id i) (''killing skewed process: '' @ e)), i', w2)
     \<and> \<not> TimeSkewInjector_is_armed i' \<and> TimeSkewInjector_pid i' = None
     \<and> (\<forall>v. TimeSkewInjector_disarm env i' v = (Ok (), i', v))"
  using assms by (simp add: TimeSkewInjector_disarm_def TimeSkewInjector_is_armed_def TimeSkewInjector_pid_def Let_def)

end
