(* ===== verification/Harness_Injectors.thy ===== *)
theory Harness_Injectors
  imports Runner Fix_Injector Xdp_Pktloss Xdp_Corrupt Xdp_Partition Cgroup_Mem Time_Skew
begin

text \<open>
  The injectors the binary can build: the configuration types of \<^verbatim>\<open>cli/src/config.rs\<close>, the function
  \<^verbatim>\<open>build_injector\<close> of \<^verbatim>\<open>cli/src/build.rs\<close>, and \<^verbatim>\<open>Box<dyn FaultInjector>\<close> as a datatype with one
  constructor per implementation. Its operations dispatch to the implementation; that they keep the
  contract of the trait follows from the interpretations of the six components, so everything proved
  of a runner inside the locale holds for the injectors of this program.
\<close>

section \<open>Configuration\<close>

datatype pressure_mode_config = PressureModeConfig_Hard | PressureModeConfig_Soft

datatype injector_config =
    InjectorConfig_XdpPacketLoss string u32
  | InjectorConfig_XdpCorruption string u32 u32 u8
  | InjectorConfig_XdpPartition string ip_addr u16
  | InjectorConfig_CgroupMemoryPressure u32 u64 pressure_mode_config
  | InjectorConfig_TimeSkew "string list" "64 word" "64 word"
  | InjectorConfig_FixSilentReject string string
  | InjectorConfig_FixAckWithoutExecution string string
  | InjectorConfig_FixRateLimitThrottle string string u64
  | InjectorConfig_FixExecutionReportPriceMutation string string string

text \<open>The map of injectors in its iteration order.\<close>

record config =
  cfg_name :: string
  cfg_seed :: u64
  cfg_injectors :: "(string \<times> injector_config) list"
  cfg_schedule :: "scenario_step list"

section \<open>Boxed injectors\<close>

datatype 'h boxed_injector =
    BoxPktloss "'h pktloss_injector"
  | BoxCorruption "'h corruption_injector"
  | BoxPartition "'h partition_injector"
  | BoxCgroup cgroup_injector
  | BoxTimeSkew time_skew_injector
  | BoxFix "fix_adapter fix_fault_injector"

text \<open>Everything outside the repository that the injectors talk to.\<close>

record ('h, 'w) injector_env =
  ie_bpf :: "('h, 'w) bpf_env"
  ie_fs :: "'w fs_env"
  ie_proc :: "'w proc_env"
  ie_bind :: "'w bind_fn"

definition boxed_call :: "('i \<Rightarrow> 'h boxed_injector) \<Rightarrow> ('i, 'w) fault_call \<Rightarrow> 'i \<Rightarrow> 'w
    \<Rightarrow> (unit, harness_error) outcome \<times> 'h boxed_injector \<times> 'w" where
  "boxed_call box f i w = (case f i w of (r, i', w') \<Rightarrow> (r, box i', w'))"

fun boxed_id :: "('h, 'w) injector_env \<Rightarrow> 'h boxed_injector \<Rightarrow> string" where
  "boxed_id env (BoxPktloss i) = op_id (pktloss_ops (ie_bpf env)) i"
| "boxed_id env (BoxCorruption i) = op_id (corrupt_ops (ie_bpf env)) i"
| "boxed_id env (BoxPartition i) = op_id (partition_ops (ie_bpf env)) i"
| "boxed_id env (BoxCgroup i) = op_id (cgroup_ops (ie_fs env)) i"
| "boxed_id env (BoxTimeSkew i) = op_id (time_skew_ops (ie_proc env)) i"
| "boxed_id env (BoxFix i) = op_id (fix_injector_ops (ie_bind env)) i"

fun boxed_arm :: "('h, 'w) injector_env \<Rightarrow> fault_context \<Rightarrow> ('h boxed_injector, 'w) fault_call" where
  "boxed_arm env ctx (BoxPktloss i) w = boxed_call BoxPktloss (op_arm (pktloss_ops (ie_bpf env)) ctx) i w"
| "boxed_arm env ctx (BoxCorruption i) w = boxed_call BoxCorruption (op_arm (corrupt_ops (ie_bpf env)) ctx) i w"
| "boxed_arm env ctx (BoxPartition i) w = boxed_call BoxPartition (op_arm (partition_ops (ie_bpf env)) ctx) i w"
| "boxed_arm env ctx (BoxCgroup i) w = boxed_call BoxCgroup (op_arm (cgroup_ops (ie_fs env)) ctx) i w"
| "boxed_arm env ctx (BoxTimeSkew i) w = boxed_call BoxTimeSkew (op_arm (time_skew_ops (ie_proc env)) ctx) i w"
| "boxed_arm env ctx (BoxFix i) w = boxed_call BoxFix (op_arm (fix_injector_ops (ie_bind env)) ctx) i w"

fun boxed_disarm :: "('h, 'w) injector_env \<Rightarrow> ('h boxed_injector, 'w) fault_call" where
  "boxed_disarm env (BoxPktloss i) w = boxed_call BoxPktloss (op_disarm (pktloss_ops (ie_bpf env))) i w"
| "boxed_disarm env (BoxCorruption i) w = boxed_call BoxCorruption (op_disarm (corrupt_ops (ie_bpf env))) i w"
| "boxed_disarm env (BoxPartition i) w = boxed_call BoxPartition (op_disarm (partition_ops (ie_bpf env))) i w"
| "boxed_disarm env (BoxCgroup i) w = boxed_call BoxCgroup (op_disarm (cgroup_ops (ie_fs env))) i w"
| "boxed_disarm env (BoxTimeSkew i) w = boxed_call BoxTimeSkew (op_disarm (time_skew_ops (ie_proc env))) i w"
| "boxed_disarm env (BoxFix i) w = boxed_call BoxFix (op_disarm (fix_injector_ops (ie_bind env))) i w"

fun boxed_is_armed :: "('h, 'w) injector_env \<Rightarrow> 'h boxed_injector \<Rightarrow> bool" where
  "boxed_is_armed env (BoxPktloss i) = op_is_armed (pktloss_ops (ie_bpf env)) i"
| "boxed_is_armed env (BoxCorruption i) = op_is_armed (corrupt_ops (ie_bpf env)) i"
| "boxed_is_armed env (BoxPartition i) = op_is_armed (partition_ops (ie_bpf env)) i"
| "boxed_is_armed env (BoxCgroup i) = op_is_armed (cgroup_ops (ie_fs env)) i"
| "boxed_is_armed env (BoxTimeSkew i) = op_is_armed (time_skew_ops (ie_proc env)) i"
| "boxed_is_armed env (BoxFix i) = op_is_armed (fix_injector_ops (ie_bind env)) i"

definition boxed_ops :: "('h, 'w) injector_env \<Rightarrow> ('h boxed_injector, 'w) injector_ops" where
  "boxed_ops env = \<lparr>op_id = boxed_id env, op_arm = boxed_arm env,
     op_disarm = boxed_disarm env, op_is_armed = boxed_is_armed env\<rparr>"

section \<open>Building\<close>

fun build_injector :: "string \<Rightarrow> injector_config \<Rightarrow> 'h boxed_injector" where
  "build_injector i (InjectorConfig_XdpPacketLoss iface n) =
     BoxPktloss (XdpPacketLossInjector_new i iface n)"
| "build_injector i (InjectorConfig_XdpCorruption iface n offset msk) =
     BoxCorruption (XdpCorruptionInjector_new i iface n offset msk)"
| "build_injector i (InjectorConfig_XdpPartition iface src_ip src_port) =
     BoxPartition (XdpPartitionInjector_new i iface src_ip src_port)"
| "build_injector i (InjectorConfig_CgroupMemoryPressure pid limit_bytes mode) =
     (let mode = (case mode of PressureModeConfig_Hard \<Rightarrow> Hard | PressureModeConfig_Soft \<Rightarrow> Soft)
      in BoxCgroup (CgroupMemoryPressureInjector_new i pid limit_bytes mode))"
| "build_injector i (InjectorConfig_TimeSkew argv monotonic_offset_secs boottime_offset_secs) =
     BoxTimeSkew (TimeSkewInjector_new i argv monotonic_offset_secs boottime_offset_secs)"
| "build_injector i (InjectorConfig_FixSilentReject la ua) =
     BoxFix (FixFaultInjector_new i la ua FixSilentReject)"
| "build_injector i (InjectorConfig_FixAckWithoutExecution la ua) =
     BoxFix (FixFaultInjector_new i la ua FixAckWithoutExecution)"
| "build_injector i (InjectorConfig_FixRateLimitThrottle la ua n) =
     BoxFix (FixFaultInjector_new i la ua (FixRateLimitThrottle (FixRateLimitThrottle_new n)))"
| "build_injector i (InjectorConfig_FixExecutionReportPriceMutation la ua price) =
     BoxFix (FixFaultInjector_new i la ua
       (FixExecutionReportPriceMutation (FixExecutionReportPriceMutation_new (str_bytes price))))"

definition build_registry :: "(string \<times> injector_config) list \<Rightarrow> 'h boxed_injector registry" where
  "build_registry cs = map (\<lambda>(i, ic). (i, build_injector i ic)) cs"

section \<open>The contract\<close>

context idempotent_injector
begin

lemma arm_again: "op_arm ops c i w = (Ok u, i', w') \<Longrightarrow> op_arm ops c' i' w'' = (r, j, v) \<Longrightarrow> j = i'"
  using arm_idem [of c i w u i' w' c' w''] by simp

lemma disarm_again: "op_disarm ops i w = (Ok u, i', w') \<Longrightarrow> op_disarm ops i' w'' = (r, j, v) \<Longrightarrow> j = i'"
  using disarm_idem [of i w u i' w' w''] by simp

end

text \<open>The laws of the six implementations, one bundle per law.\<close>

lemmas boxed_arm_ok_laws =
  pktloss.arm_ok corruption.arm_ok partition.arm_ok cgroup.arm_ok time_skew.arm_ok fix_injector.arm_ok
lemmas boxed_arm_err_laws =
  pktloss.arm_err corruption.arm_err partition.arm_err cgroup.arm_err time_skew.arm_err fix_injector.arm_err
lemmas boxed_arm_panic_laws =
  pktloss.arm_panic corruption.arm_panic partition.arm_panic cgroup.arm_panic time_skew.arm_panic fix_injector.arm_panic
lemmas boxed_arm_id_laws =
  pktloss.arm_id corruption.arm_id partition.arm_id cgroup.arm_id time_skew.arm_id fix_injector.arm_id
lemmas boxed_arm_again_laws =
  pktloss.arm_again corruption.arm_again partition.arm_again cgroup.arm_again time_skew.arm_again fix_injector.arm_again
lemmas boxed_disarm_ok_laws =
  pktloss.disarm_ok corruption.disarm_ok partition.disarm_ok cgroup.disarm_ok time_skew.disarm_ok fix_injector.disarm_ok
lemmas boxed_disarm_err_laws =
  pktloss.disarm_err corruption.disarm_err partition.disarm_err cgroup.disarm_err time_skew.disarm_err fix_injector.disarm_err
lemmas boxed_disarm_panic_laws =
  pktloss.disarm_panic corruption.disarm_panic partition.disarm_panic cgroup.disarm_panic time_skew.disarm_panic fix_injector.disarm_panic
lemmas boxed_disarm_id_laws =
  pktloss.disarm_id corruption.disarm_id partition.disarm_id cgroup.disarm_id time_skew.disarm_id fix_injector.disarm_id
lemmas boxed_disarm_again_laws =
  pktloss.disarm_again corruption.disarm_again partition.disarm_again cgroup.disarm_again time_skew.disarm_again fix_injector.disarm_again

interpretation boxed: idempotent_injector "boxed_ops env" for env
proof (unfold_locales, unfold boxed_ops_def injector_ops.simps, goal_cases)
  case (1 c i w u i' w')
  then show ?case by (cases i) (auto simp: boxed_call_def split: prod.splits dest: boxed_arm_ok_laws)
next
  case (2 c i w e i' w')
  then show ?case by (cases i) (auto simp: boxed_call_def split: prod.splits dest: boxed_arm_err_laws)
next
  case (3 c i w m i' w')
  then show ?case by (cases i) (auto simp: boxed_call_def boxed_arm_panic_laws split: prod.splits)
next
  case (4 c i w r i' w')
  then show ?case by (cases i) (auto simp: boxed_call_def split: prod.splits dest: boxed_arm_id_laws)
next
  case (5 i w u i' w')
  then show ?case by (cases i) (auto simp: boxed_call_def split: prod.splits dest: boxed_disarm_ok_laws)
next
  case (6 i w e i' w')
  then show ?case by (cases i) (auto simp: boxed_call_def split: prod.splits dest: boxed_disarm_err_laws)
next
  case (7 i w m i' w')
  then show ?case by (cases i) (auto simp: boxed_call_def boxed_disarm_panic_laws split: prod.splits)
next
  case (8 i w r i' w')
  then show ?case by (cases i) (auto simp: boxed_call_def split: prod.splits dest: boxed_disarm_id_laws)
next
  case (9 c i w u i' w' c' w'')
  then show ?case by (cases i) (auto simp: boxed_call_def split: prod.splits dest: boxed_arm_again_laws)
next
  case (10 i w u i' w' w'')
  then show ?case by (cases i) (auto simp: boxed_call_def split: prod.splits dest: boxed_disarm_again_laws)
qed

lemma build_injector_fresh:
  "op_id (boxed_ops env) (build_injector i ic) = i" "\<not> op_is_armed (boxed_ops env) (build_injector i ic)"
  by (cases ic; simp add: boxed_ops_def pktloss_ops_def corrupt_ops_def partition_ops_def cgroup_ops_def
      time_skew_ops_def fix_injector_ops_def XdpPacketLossInjector_new_def XdpCorruptionInjector_new_def
      XdpPartitionInjector_new_def CgroupMemoryPressureInjector_new_def TimeSkewInjector_new_def
      TimeSkewInjector_is_armed_def FixFaultInjector_new_def)+

lemma build_registry_lookup: "map_of (build_registry cs) f = map_option (build_injector f) (map_of cs f)"
  by (induction cs) (auto simp: build_registry_def)

lemma build_registry_idle [simp]: "armed_ids (boxed_ops env) (build_registry cs) = {}"
  by (auto simp: armed_ids_def build_registry_lookup build_injector_fresh)

section \<open>Properties\<close>

text \<open>
  C4: running a validated scenario against the injectors of a configuration refines the abstract
  reading of the schedule, in which a fault is armed if its last step so far is an arm. A run that
  succeeds leaves exactly the faults armed whose last step is an arm; a run that fails has stopped at
  some step, and every fault but that step's own is armed exactly if the steps before it armed it; and
  no run panics. This holds for every kind of injector, every behaviour of the outside world, and with
  or without sleeping.
\<close>

theorem run_refines_schedule:
  assumes "ValidatedSchedule_validate sc = Ok vs" and "Runner_new vs (build_registry cs) ctx = Ok rn"
    and "Runner_run_inner (boxed_ops env) sleep rn tick rt w = Some (r, rn', w')"
  shows "case r of
      Ok tr \<Rightarrow> \<forall>f. f \<in> armed_ids (boxed_ops env) (rn_injectors rn')
                  \<longleftrightarrow> actions_of f (steps sc) \<noteq> [] \<and> last (actions_of f (steps sc)) = Arm
    | Err e \<Rightarrow> \<exists>k < length (steps sc). \<forall>f. f \<noteq> fault_id (steps sc ! k) \<longrightarrow>
                  (f \<in> armed_ids (boxed_ops env) (rn_injectors rn') \<longleftrightarrow> f \<in> armed_after {} (take k (steps sc)))
    | Panic m \<Rightarrow> False"
proof -
  have "ValidatedSchedule_steps vs = steps sc"
    using assms(1) by (simp add: validate_eq_Ok_iff ValidatedSchedule_steps_def)
  note steps = this
  show ?thesis
  proof (cases r)
    case (Ok tr)
    with boxed.run_inner_ok [OF assms(2)] assms(3) steps
    have "armed_ids (boxed_ops env) (rn_injectors rn') = armed_after {} (steps sc)" by fastforce
    then show ?thesis unfolding Ok by (simp add: armed_after_last)
  next
    case (Err e)
    with boxed.run_inner_err [OF assms(2)] assms(3) steps obtain k where
      "stopped_at (armed_ids (boxed_ops env) (rn_injectors rn')) {} (steps sc) k" by fastforce
    then show ?thesis unfolding Err by (auto simp: stopped_at_def)
  next
    case (Panic m)
    with boxed.run_inner_no_panic [OF assms(2,3)] show ?thesis by simp
  qed
qed

text \<open>An outside world for the instances: processes can be launched and listeners bound, there is no
  BPF and no writable file system; the world is the log of the calls.\<close>

definition plain_env :: "(unit, string list) injector_env" where
  "plain_env =
     \<lparr>ie_bpf = \<lparr>be_load = \<lambda>obj w. (Inl ''no bpf'', w), be_program = \<lambda>h p. None, be_prog_load = \<lambda>h p w. (None, w),
        be_attach = \<lambda>h p iface w. (None, w), be_map = \<lambda>h m. None, be_set = \<lambda>h m v w. (None, w), be_get = \<lambda>h m w. U32 0\<rparr>,
      ie_fs = \<lparr>fs_exists = \<lambda>p w. False, fs_read_to_string = \<lambda>p w. Inl ''no file'',
        fs_create_dir_all = \<lambda>p w. (Some ''read-only'', w), fs_write = \<lambda>p c w. (Some ''read-only'', w)\<rparr>,
      ie_proc = logging_proc True,
      ie_bind = \<lambda>a w. (None, w @ [''bind ''])\<rparr>"

definition demo_injectors :: "(string \<times> injector_config) list" where
  "demo_injectors = [(''skew'', InjectorConfig_TimeSkew [''oms''] 60 0),
     (''loss'', InjectorConfig_XdpPacketLoss ''lo'' 3),
     (''throttle'', InjectorConfig_FixRateLimitThrottle ''a:1'' ''b:2'' 3)]"

definition demo_steps :: "scenario_step list" where
  "demo_steps = [\<lparr>at_ns = 1000, fault_id = ''skew'', action = Arm\<rparr>,
     \<lparr>at_ns = 2000, fault_id = ''throttle'', action = Arm\<rparr>,
     \<lparr>at_ns = 5000, fault_id = ''throttle'', action = Disarm\<rparr>]"

definition demo_scenario :: scenario where
  "demo_scenario = \<lparr>name = ''demo'', seed = 42, steps = demo_steps\<rparr>"

lemma demo_valid: "ValidatedSchedule_validate demo_scenario = Ok \<lparr>vs_scenario = demo_scenario\<rparr>"
  by (simp add: ValidatedSchedule_validate_def demo_scenario_def demo_steps_def)

abbreviation demo_runner :: "unit boxed_injector runner" where
  "demo_runner \<equiv> \<lparr>rn_schedule = \<lparr>vs_scenario = demo_scenario\<rparr>, rn_injectors = build_registry demo_injectors,
     rn_ctx = test_ctx\<rparr>"

lemma demo_new: "Runner_new \<lparr>vs_scenario = demo_scenario\<rparr> (build_registry demo_injectors) test_ctx = Ok demo_runner"
  by (simp add: Runner_new_def demo_scenario_def demo_steps_def ValidatedSchedule_steps_def build_registry_def
      demo_injectors_def)

lemmas boxed_eval =
  boxed_ops_def boxed_call_def time_skew_ops_def fix_injector_ops_def pktloss_ops_def
  TimeSkewInjector_arm_def TimeSkewInjector_disarm_def Command_spawn_def pre_exec_def logging_proc_def
  TimeSkewInjector_new_def FixFaultInjector_new_def FixProxy_new_def FixFaultInjector_arm_def
  FixFaultInjector_disarm_def FixProxy_start_def plain_env_def

lemma demo_run_ok:
  "\<exists>tr rn' w'. Runner_run_inner (boxed_ops plain_env) (\<lambda>d w. w) demo_runner 2500 rt [] = Some (Ok tr, rn', w')"
  by (simp add: run_eval boxed_eval demo_scenario_def demo_steps_def build_registry_def demo_injectors_def test_ctx_def)

theorem run_refines_schedule_witness:
  "\<exists>tr rn' w'. Runner_run_inner (boxed_ops plain_env) (\<lambda>d w. w) demo_runner 2500 False [] = Some (Ok tr, rn', w')
     \<and> ''skew'' \<in> armed_ids (boxed_ops plain_env) (rn_injectors rn')
     \<and> ''throttle'' \<notin> armed_ids (boxed_ops plain_env) (rn_injectors rn')"
proof -
  obtain tr rn' w' where run:
    "Runner_run_inner (boxed_ops plain_env) (\<lambda>d w. w) demo_runner 2500 False [] = Some (Ok tr, rn', w')"
    using demo_run_ok by blast
  from run_refines_schedule [OF demo_valid demo_new run] show ?thesis
    unfolding run by (simp add: demo_scenario_def demo_steps_def actions_of_def)
qed

end
