(* ===== verification/Cli.thy ===== *)
theory Cli
  imports Harness_Injectors
begin

text \<open>
  The binary, \<^verbatim>\<open>cli/src/main.rs\<close>: loading a configuration, running a scenario, and the two commands.
  The command line parser and the TOML parser are not part of the repository: the model starts from a
  parsed command and takes the TOML parser as a parameter. Messages that end the process are values of
  a datatype, with the pieces they are rendered from; standard output is the list of its lines.

  \<^verbatim>\<open>die\<close> ends the process with \<^verbatim>\<open>exit\<close>, which runs no destructor, whereas leaving a scope drops its
  values. The difference shows in \<open>execute_scenario\<close>: only a run that succeeded (or panicked) drops its
  runner, which tears the faults down. Next to the result the model therefore returns the injectors as
  the function, or the process, leaves them.
\<close>

section \<open>Definitions\<close>

datatype command =
    Run string u64 "string option"
  | Replay string u64 string

record ('h, 'w) cli_env =
  ce_injectors :: "('h, 'w) injector_env"
  ce_trace :: "'w trace_env"
  ce_toml :: "string \<Rightarrow> string + config"
  ce_sleep :: "u64 \<Rightarrow> 'w \<Rightarrow> 'w"

datatype die_message =
    ReadingConfig string string
  | ParsingConfig string string
  | InvalidScenarioMsg harness_error
  | SettingUpRunner harness_error
  | RunFailed harness_error
  | SavingTrace harness_error
  | LoadingBaseline string harness_error
  | Mismatch string

datatype 'a exit_status = Returned 'a | Died die_message | Panicking string

definition load_config :: "('h, 'w) cli_env \<Rightarrow> string \<Rightarrow> 'w \<Rightarrow> config exit_status" where
  "load_config env path w =
     (case fs_read_to_string (ie_fs (ce_injectors env)) path w of
        Inl e \<Rightarrow> Died (ReadingConfig path e)
      | Inr txt \<Rightarrow>
          (case ce_toml env txt of
             Inl e \<Rightarrow> Died (ParsingConfig path e)
           | Inr cfg \<Rightarrow> Returned cfg))"

definition build_scenario_and_injectors :: "config \<Rightarrow> scenario \<times> 'h boxed_injector registry" where
  "build_scenario_and_injectors cfg =
     (\<lparr>name = cfg_name cfg, seed = cfg_seed cfg, steps = cfg_schedule cfg\<rparr>, build_registry (cfg_injectors cfg))"

text \<open>Padding counts characters, which in UTF-8 are the bytes that do not continue one.\<close>

definition char_count :: "string \<Rightarrow> nat" where
  "char_count s = length (filter (\<lambda>c. \<not> utf8_cont (of_char c)) s)"

definition pad_left :: "nat \<Rightarrow> string \<Rightarrow> string" where
  "pad_left n s = replicate (n - char_count s) (CHR '' '') @ s"

definition pad_right :: "nat \<Rightarrow> string \<Rightarrow> string" where
  "pad_right n s = s @ replicate (n - char_count s) (CHR '' '')"

fun step_action_debug :: "step_action \<Rightarrow> string" where
  "step_action_debug Arm = ''Arm''"
| "step_action_debug Disarm = ''Disarm''"

definition print_trace_summary :: "trace \<Rightarrow> string list" where
  "print_trace_summary t =
     (''scenario: '' @ scenario_name t @ '' (seed '' @ dec_string (unat (trace_seed t)) @ '')'')
     # map (\<lambda>ev. ''  '' @ pad_left 14 (dec_string (unat (at_ns (ev_step ev)))) @ '' ns  ''
              @ pad_right 20 (fault_id (ev_step ev)) @ '' '' @ step_action_debug (action (ev_step ev)))
         (events t)"

definition execute_scenario ::
  "('h, 'w) cli_env \<Rightarrow> string \<Rightarrow> u64 \<Rightarrow> bool \<Rightarrow> 'w
     \<Rightarrow> (trace exit_status \<times> 'h boxed_injector registry \<times> 'w) option" where
  "execute_scenario env config_path tick_ns realtime w =
     (case load_config env config_path w of
        Died m \<Rightarrow> Some (Died m, [], w)
      | Panicking m \<Rightarrow> Some (Panicking m, [], w)
      | Returned cfg \<Rightarrow>
          (case build_scenario_and_injectors cfg of
             (sc, injectors) \<Rightarrow>
               (case ValidatedSchedule_validate sc of
                  Err e \<Rightarrow> Some (Died (InvalidScenarioMsg e), injectors, w)
                | Panic m \<Rightarrow> Some (Panicking m, injectors, w)
                | Ok schedule \<Rightarrow>
                    (case Runner_new schedule injectors \<lparr>ctx_clock = SystemClock, ctx_seed = seed sc\<rparr> of
                       Err e \<Rightarrow> Some (Died (SettingUpRunner e), injectors, w)
                     | Panic m \<Rightarrow> Some (Panicking m, injectors, w)
                     | Ok rn \<Rightarrow>
                         let ops = boxed_ops (ce_injectors env)
                         in case (if realtime then Runner_run_realtime ops (ce_sleep env) rn tick_ns w
                                  else Runner_run ops (ce_sleep env) rn tick_ns w) of
                              None \<Rightarrow> None
                            | Some (Err e, rn', w') \<Rightarrow> Some (Died (RunFailed e), rn_injectors rn', w')
                            | Some (Panic m, rn', w') \<Rightarrow>
                                (case Runner_drop ops rn' w' of
                                   (rn'', w'') \<Rightarrow> Some (Panicking m, rn_injectors rn'', w''))
                            | Some (Ok tr, rn', w') \<Rightarrow>
                                (case Runner_drop ops rn' w' of
                                   (rn'', w'') \<Rightarrow> Some (Returned tr, rn_injectors rn'', w''))))))"

text \<open>\<^verbatim>\<open>main\<close> on a parsed command: how the process ends, what it printed, and the world it leaves;
  \<open>None\<close> if it does not end.\<close>

fun main_command ::
  "('h, 'w) cli_env \<Rightarrow> command \<Rightarrow> 'w \<Rightarrow> (unit exit_status \<times> string list \<times> 'w) option" where
  "main_command env (Run config tick_ns trace_out) w =
     (case execute_scenario env config tick_ns True w of
        None \<Rightarrow> None
      | Some (Died m, injs, w') \<Rightarrow> Some (Died m, [], w')
      | Some (Panicking m, injs, w') \<Rightarrow> Some (Panicking m, [], w')
      | Some (Returned tr, injs, w') \<Rightarrow>
          (case trace_out of
             None \<Rightarrow> Some (Returned (), print_trace_summary tr, w')
           | Some out \<Rightarrow>
               (case Trace_save (ce_trace env) tr out w' of
                  (Err e, w'') \<Rightarrow> Some (Died (SavingTrace e), print_trace_summary tr, w'')
                | (Panic m, w'') \<Rightarrow> Some (Panicking m, print_trace_summary tr, w'')
                | (Ok u, w'') \<Rightarrow>
                    Some (Returned (), print_trace_summary tr @ [''trace saved to '' @ out], w''))))"
| "main_command env (Replay config tick_ns against) w =
     (case Trace_load (ce_trace env) against w of
        Err e \<Rightarrow> Some (Died (LoadingBaseline against e), [], w)
      | Panic m \<Rightarrow> Some (Panicking m, [], w)
      | Ok baseline \<Rightarrow>
          (case execute_scenario env config tick_ns False w of
             None \<Rightarrow> None
           | Some (Died m, injs, w') \<Rightarrow> Some (Died m, [], w')
           | Some (Panicking m, injs, w') \<Rightarrow> Some (Panicking m, [], w')
           | Some (Returned tr, injs, w') \<Rightarrow>
               if Trace_matches_schedule tr baseline
               then Some (Returned (), print_trace_summary tr @ [''MATCH: this run reproduces '' @ against], w')
               else Some (Died (Mismatch against), print_trace_summary tr, w')))"

section \<open>What a command did\<close>

abbreviation config_scenario :: "config \<Rightarrow> scenario" where
  "config_scenario cfg \<equiv> \<lparr>name = cfg_name cfg, seed = cfg_seed cfg, steps = cfg_schedule cfg\<rparr>"

text \<open>A configuration got as far as a runner: it was loaded and validated, and every fault it
  schedules has an injector.\<close>

definition started ::
  "('h, 'w) cli_env \<Rightarrow> string \<Rightarrow> 'w \<Rightarrow> config \<Rightarrow> 'h boxed_injector runner \<Rightarrow> bool" where
  "started env path w cfg rn \<longleftrightarrow>
     load_config env path w = Returned cfg
     \<and> ValidatedSchedule_validate (config_scenario cfg) = Ok \<lparr>vs_scenario = config_scenario cfg\<rparr>
     \<and> Runner_new \<lparr>vs_scenario = config_scenario cfg\<rparr> (build_registry (cfg_injectors cfg))
         \<lparr>ctx_clock = SystemClock, ctx_seed = cfg_seed cfg\<rparr> = Ok rn"

lemma load_config_no_panic [panic_free]: "load_config env path w \<noteq> Panicking m"
  by (auto simp: load_config_def split: sum.splits)

text \<open>Before a runner exists nothing has happened to the world; from then on the run decides.\<close>

lemma execute_started:
  assumes "started env path w cfg rn"
  shows "execute_scenario env path tick rt w =
    (case Runner_run_inner (boxed_ops (ce_injectors env)) (ce_sleep env) rn tick rt w of
       None \<Rightarrow> None
     | Some (r, rn', w') \<Rightarrow>
         (case Runner_drop (boxed_ops (ce_injectors env)) rn' w' of (rn'', w'') \<Rightarrow>
            Some (case r of
                    Err e \<Rightarrow> (Died (RunFailed e), rn_injectors rn', w')
                  | Panic m \<Rightarrow> (Panicking m, rn_injectors rn'', w'')
                  | Ok tr \<Rightarrow> (Returned tr, rn_injectors rn'', w''))))"
  using assms
  by (auto simp: started_def execute_scenario_def build_scenario_and_injectors_def Let_def
      Runner_run_realtime_def Runner_run_def split: option.splits outcome.splits prod.splits)

text \<open>The ways a configuration is refused.\<close>

definition refusal :: "string \<Rightarrow> die_message \<Rightarrow> bool" where
  "refusal path m \<longleftrightarrow> (\<exists>e. m = ReadingConfig path e) \<or> (\<exists>e. m = ParsingConfig path e)
     \<or> (\<exists>e. m = InvalidScenarioMsg e) \<or> (\<exists>e. m = SettingUpRunner e)"

lemma execute_not_started:
  assumes "\<not> (\<exists>cfg rn. started env path w cfg rn)"
  shows "\<exists>m injs. execute_scenario env path tick rt w = Some (Died m, injs, w) \<and> refusal path m"
proof (cases "load_config env path w")
  case (Died m)
  then show ?thesis
    by (auto simp: execute_scenario_def load_config_def refusal_def split: sum.splits)
next
  case (Returned cfg)
  show ?thesis
  proof (cases "ValidatedSchedule_validate (config_scenario cfg)")
    case (Ok vs)
    then have "vs = \<lparr>vs_scenario = config_scenario cfg\<rparr>" by (simp add: validate_eq_Ok_iff)
    with assms Returned Ok show ?thesis
      by (cases "Runner_new vs (build_registry (cfg_injectors cfg) :: 'a boxed_injector registry)
            \<lparr>ctx_clock = SystemClock, ctx_seed = cfg_seed cfg\<rparr>")
        (auto simp: started_def execute_scenario_def build_scenario_and_injectors_def refusal_def
          Runner_new_def panic_free split: outcome.splits)
  qed (use Returned in \<open>auto simp: execute_scenario_def build_scenario_and_injectors_def refusal_def panic_free\<close>)
qed (simp add: panic_free)

lemma execute_started_cases:
  assumes st: "started env path w cfg rn" and "execute_scenario env path tick rt w = Some (res, injs, w')"
  obtains (failed) e rn' where "res = Died (RunFailed e)"
      "Runner_run_inner (boxed_ops (ce_injectors env)) (ce_sleep env) rn tick rt w = Some (Err e, rn', w')"
      "injs = rn_injectors rn'"
  | (returned) tr rn' w1 rn'' where "res = Returned tr"
      "Runner_run_inner (boxed_ops (ce_injectors env)) (ce_sleep env) rn tick rt w = Some (Ok tr, rn', w1)"
      "Runner_drop (boxed_ops (ce_injectors env)) rn' w1 = (rn'', w')" "injs = rn_injectors rn''"
proof -
  note exec = assms(2) [unfolded execute_started [OF st]]
  obtain r rn' w1 where run: "Runner_run_inner (boxed_ops (ce_injectors env)) (ce_sleep env) rn tick rt w
      = Some (r, rn', w1)" using exec by (auto split: option.splits)
  obtain rn'' w2 where drop: "Runner_drop (boxed_ops (ce_injectors env)) rn' w1 = (rn'', w2)" by fastforce
  note exec = exec [unfolded run drop option.case prod.case]
  show ?thesis
  proof (cases r)
    case (Ok tr)
    with exec have "res = Returned tr" "injs = rn_injectors rn''" "w' = w2" by simp_all
    with returned run Ok drop show ?thesis by blast
  next
    case (Err e)
    with exec have "res = Died (RunFailed e)" "injs = rn_injectors rn'" "w' = w1" by simp_all
    with failed run Err show ?thesis by blast
  next
    case (Panic m)
    with boxed.run_inner_no_panic [OF _ run] st show ?thesis by (auto simp: started_def)
  qed
qed

lemma execute_returned_started:
  assumes "execute_scenario env path tick rt w = Some (Returned tr, injs, w')"
  obtains cfg rn where "started env path w cfg rn"
  using execute_not_started [of env path w tick rt] assms by fastforce

lemma execute_refused_world:
  assumes "execute_scenario env path tick rt w = Some (Died m, injs, w')" and "\<And>e. m \<noteq> RunFailed e"
  shows "w' = w"
proof (cases "\<exists>cfg rn. started env path w cfg rn")
  case True
  with assms show ?thesis by (auto elim: execute_started_cases)
next
  case False
  from execute_not_started [OF this, of tick rt] assms(1) show ?thesis by auto
qed

text \<open>The trace a successful execution returns is the configured schedule.\<close>

lemma execute_trace:
  assumes "started env path w cfg rn" and "execute_scenario env path tick rt w = Some (Returned tr, injs, w')"
  shows "map ev_step (events tr) = cfg_schedule cfg" and "trace_seed tr = cfg_seed cfg"
proof -
  from assms obtain rn' w1 where "Runner_run_inner (boxed_ops (ce_injectors env)) (ce_sleep env) rn tick rt w
      = Some (Ok tr, rn', w1)"
    by (auto elim: execute_started_cases)
  with run_inner_trace assms(1)
  show "map ev_step (events tr) = cfg_schedule cfg" "trace_seed tr = cfg_seed cfg"
    by (fastforce simp: started_def ValidatedSchedule_steps_def ValidatedSchedule_seed_def)+
qed

end
