(* ===== verification/Run_Registry.thy ===== *)
theory Run_Registry
  imports Runner
begin

text \<open>
  What a runner keeps of its registry of injectors. An injector has a configuration, fixed when it is
  built; the locale \<open>configured_injector\<close> is the trait together with the law that neither call
  changes it. Inside the locale it is proved that the loop of \<^verbatim>\<open>run_inner\<close> and \<^verbatim>\<open>teardown\<close> keep
  every entry of the map: same keys, in the same order, with injectors of the same configuration,
  whatever the calls return.
\<close>

section \<open>Definitions\<close>

text \<open>An entry of the map as a reader sees it: the key, and the injector's id and configuration.\<close>

definition registry_entries ::
  "('i, 'w) injector_ops \<Rightarrow> ('i \<Rightarrow> 'c) \<Rightarrow> 'i registry \<Rightarrow> (string \<times> string \<times> 'c) list" where
  "registry_entries ops config_of injs = map (\<lambda>(k, i). (k, op_id ops i, config_of i)) injs"

section \<open>The interface\<close>

locale configured_injector = fault_injector ops
  for ops :: "('i, 'w) injector_ops" +
  fixes config_of :: "'i \<Rightarrow> 'c"
  assumes arm_config: "op_arm ops c i w = (r, i', w') \<Longrightarrow> config_of i' = config_of i"
    and disarm_config: "op_disarm ops i w = (r, i', w') \<Longrightarrow> config_of i' = config_of i"
begin

abbreviation entries :: "'i registry \<Rightarrow> (string \<times> string \<times> 'c) list" where
  "entries \<equiv> registry_entries ops config_of"

lemma step_call_config:
  assumes "step_call ops ctx a i w = (r, i', w')"
  shows "config_of i' = config_of i" "op_id ops i' = op_id ops i"
  using assms arm_config disarm_config arm_id disarm_id by (cases a; simp add: step_call_def)+

lemma entries_update:
  assumes "map_of injs f = Some i" and "config_of i' = config_of i" and "op_id ops i' = op_id ops i"
  shows "entries (AList.update f i' injs) = entries injs"
  using assms by (induction injs) (auto simp: registry_entries_def)

lemma fire_due_entries:
  assumes "fire_due ops ctx now due injs tr w = (r, injs', w')"
    and "fault_id ` set due \<subseteq> dom (map_of injs)"
  shows "entries injs' = entries injs"
  using assms
proof (induction due arbitrary: injs tr w)
  case (Cons s due)
  from Cons.prems show ?case
    by (cases rule: fire_due_Cons_cases) (simp_all add: Cons.IH entries_update step_call_config)
qed simp

lemma run_loop_entries:
  assumes "run_loop ops sleep ctx tick rt s tr injs w = Some res"
    and "sched_inv s" and "fault_id ` set (pending s) \<subseteq> dom (map_of injs)"
  shows "entries (fst (snd res)) = entries injs"
  using assms
proof (induction s tr injs w res rule: run_loop_induct)
  case (step s tr injs w due s' tr1 injs1 w1 res)
  note reg = advance_registered [OF step.prems(1) step.hyps(2) step.prems(2)]
  have "dom (map_of injs1) = dom (map_of injs)"
    using step.hyps(3) reg(1) by (rule fire_due_dom)
  with step.IH reg fire_due_entries [OF step.hyps(3) reg(1)] show ?case by simp
next
  case (err s tr injs w due s')
  note reg = advance_registered [OF err.prems(1) err.hyps(2) err.prems(2)]
  from fire_due_entries [OF err.hyps(3) reg(1)] show ?case by simp
next
  case (panic s tr injs w due s')
  note reg = advance_registered [OF panic.prems(1) panic.hyps(2) panic.prems(2)]
  from fire_due_entries [OF panic.hyps(3) reg(1)] show ?case by simp
qed simp

lemma run_inner_entries:
  assumes "Runner_new vs injs ctx = Ok rn"
    and "Runner_run_inner ops sleep rn tick rt w = Some (r, rn', w')"
  shows "entries (rn_injectors rn') = entries injs"
  using assms run_loop_entries [of sleep ctx tick rt "Scheduler_new vs 0"]
  by (auto simp: run_inner_unfold split: option.splits)

lemma torn_down_entries: "list_all2 (torn_down ops c) injs injs' \<Longrightarrow> entries injs' = entries injs"
proof (induction rule: list_all2_induct)
  case (Cons p injs p' injs')
  obtain k i k' i' where p: "p = (k, i)" "p' = (k', i')" by fastforce
  with Cons.hyps(1) have "k' = k" "config_of i' = config_of i" "op_id ops i' = op_id ops i"
    by (auto simp: torn_down_def dest: disarm_config disarm_id split: if_splits)
  with Cons.IH show ?case by (simp add: p registry_entries_def)
qed simp

lemma teardown_entries:
  assumes "Runner_teardown ops rn w = (r, rn', w')"
  shows "entries (rn_injectors rn') = entries (rn_injectors rn)"
proof -
  obtain out injs w1 where loop: "teardown_loop ops (rn_injectors rn) None w = (out, injs, w1)"
    by (metis prod_cases3)
  from teardown_loop_spec [OF loop] have "entries injs = entries (rn_injectors rn)"
    using torn_down_entries by blast
  with assms loop show ?thesis by (auto simp: Runner_teardown_def)
qed

end

end
