(* ===== verification/Injector_Config.thy ===== *)
theory Injector_Config
  imports Harness_Injectors Run_Registry
begin

text \<open>
  The configuration an injector of the program carries in its fields, read back in the form of
  \<^verbatim>\<open>cli/src/config.rs\<close>. \<^verbatim>\<open>build_injector\<close> stores every field of the configuration, and no call
  of any injector changes one, so the registry of a runner describes its configuration file for as
  long as the runner lives.
\<close>

section \<open>Definitions\<close>

fun fix_adapter_config :: "string \<Rightarrow> string \<Rightarrow> fix_adapter \<Rightarrow> injector_config" where
  "fix_adapter_config la ua FixSilentReject = InjectorConfig_FixSilentReject la ua"
| "fix_adapter_config la ua FixAckWithoutExecution = InjectorConfig_FixAckWithoutExecution la ua"
| "fix_adapter_config la ua (FixRateLimitThrottle t) = InjectorConfig_FixRateLimitThrottle la ua (threshold t)"
| "fix_adapter_config la ua (FixExecutionReportPriceMutation m) =
     InjectorConfig_FixExecutionReportPriceMutation la ua (bytes_str (mutated_price m))"

fun boxed_config :: "'h boxed_injector \<Rightarrow> injector_config" where
  "boxed_config (BoxPktloss i) = InjectorConfig_XdpPacketLoss (pl_iface i) (pl_drop_every_n i)"
| "boxed_config (BoxCorruption i) =
     InjectorConfig_XdpCorruption (cr_iface i) (cr_corrupt_every_n i) (cr_offset i) (cr_mask i)"
| "boxed_config (BoxPartition i) = InjectorConfig_XdpPartition (pt_iface i) (pt_src_ip i) (pt_src_port i)"
| "boxed_config (BoxCgroup i) =
     InjectorConfig_CgroupMemoryPressure (cg_pid i) (cg_limit_bytes i)
       (case cg_mode i of Hard \<Rightarrow> PressureModeConfig_Hard | Soft \<Rightarrow> PressureModeConfig_Soft)"
| "boxed_config (BoxTimeSkew i) =
     InjectorConfig_TimeSkew (ts_argv i) (ts_monotonic_offset_secs i) (ts_boottime_offset_secs i)"
| "boxed_config (BoxFix i) =
     fix_adapter_config (listen_addr (fx_proxy i)) (upstream_addr (fx_proxy i)) (px_adapter (fx_proxy i))"

section \<open>Lemmas\<close>

lemma build_injector_config [simp]: "boxed_config (build_injector i ic) = ic"
  by (cases ic)
    (simp_all add: XdpPacketLossInjector_new_def XdpCorruptionInjector_new_def XdpPartitionInjector_new_def
      CgroupMemoryPressureInjector_new_def TimeSkewInjector_new_def FixFaultInjector_new_def FixProxy_new_def
      FixRateLimitThrottle_new_def FixExecutionReportPriceMutation_new_def split: pressure_mode_config.split)

text \<open>The fields each implementation leaves alone.\<close>

lemma pktloss_config:
  "XdpPacketLossInjector_arm env c i w = (r, i', w') \<or> XdpPacketLossInjector_disarm env i w = (r, i', w') \<Longrightarrow>
   pl_iface i' = pl_iface i \<and> pl_drop_every_n i' = pl_drop_every_n i"
  by (auto simp: pktloss_defs split: if_splits option.splits prod.splits outcome.splits)

lemma corrupt_config:
  "XdpCorruptionInjector_arm env c i w = (r, i', w') \<or> XdpCorruptionInjector_disarm env i w = (r, i', w') \<Longrightarrow>
   cr_iface i' = cr_iface i \<and> cr_corrupt_every_n i' = cr_corrupt_every_n i \<and> cr_offset i' = cr_offset i
   \<and> cr_mask i' = cr_mask i"
  by (auto simp: corrupt_defs Let_def split: if_splits option.splits prod.splits outcome.splits)

lemma partition_config:
  "XdpPartitionInjector_arm env c i w = (r, i', w') \<or> XdpPartitionInjector_disarm env i w = (r, i', w') \<Longrightarrow>
   pt_iface i' = pt_iface i \<and> pt_src_ip i' = pt_src_ip i \<and> pt_src_port i' = pt_src_port i"
  by (auto simp: partition_defs Let_def split: if_splits option.splits prod.splits outcome.splits ip_addr.splits)

lemma cgroup_setup_config:
  "CgroupMemoryPressureInjector_ensure_setup env i w = (r, i', w') \<Longrightarrow>
   cg_pid i' = cg_pid i \<and> cg_limit_bytes i' = cg_limit_bytes i \<and> cg_mode i' = cg_mode i"
  by (erule ensure_setup_cases) auto

lemma cgroup_config:
  "CgroupMemoryPressureInjector_arm env c i w = (r, i', w') \<or> CgroupMemoryPressureInjector_disarm env i w = (r, i', w') \<Longrightarrow>
   cg_pid i' = cg_pid i \<and> cg_limit_bytes i' = cg_limit_bytes i \<and> cg_mode i' = cg_mode i"
  by (auto simp: CgroupMemoryPressureInjector_arm_def CgroupMemoryPressureInjector_disarm_def
      split: option.splits prod.splits outcome.splits dest!: cgroup_setup_config)

lemma time_skew_config:
  "TimeSkewInjector_arm env c i w = (r, i', w') \<or> TimeSkewInjector_disarm env i w = (r, i', w') \<Longrightarrow>
   ts_argv i' = ts_argv i \<and> ts_monotonic_offset_secs i' = ts_monotonic_offset_secs i
   \<and> ts_boottime_offset_secs i' = ts_boottime_offset_secs i"
  by (auto simp: TimeSkewInjector_arm_def TimeSkewInjector_disarm_def Let_def
      split: if_splits list.splits option.splits prod.splits sum.splits)

lemma fix_injector_config:
  "FixFaultInjector_arm bind c i w = (r, i', w') \<or> FixFaultInjector_disarm i w = (r, i', w') \<Longrightarrow>
   listen_addr (fx_proxy i') = listen_addr (fx_proxy i) \<and> upstream_addr (fx_proxy i') = upstream_addr (fx_proxy i)
   \<and> px_adapter (fx_proxy i') = px_adapter (fx_proxy i)"
  by (auto simp: FixFaultInjector_disarm_def elim: FixFaultInjector_arm_cases)

lemmas implementation_configs =
  pktloss_config corrupt_config partition_config cgroup_config time_skew_config fix_injector_config

lemma boxed_call_config:
  assumes "boxed_arm env c b w = (r, b', w') \<or> boxed_disarm env b w = (r, b', w')"
  shows "boxed_config b' = boxed_config b"
  using assms
  by (cases b)
    (auto simp: boxed_call_def pktloss_ops_def corrupt_ops_def partition_ops_def cgroup_ops_def time_skew_ops_def
      fix_injector_ops_def split: prod.splits dest!: implementation_configs [OF disjI1] implementation_configs [OF disjI2])

interpretation boxed_config: configured_injector "boxed_ops env" boxed_config for env
  by unfold_locales (auto simp: boxed_ops_def intro: boxed_call_config)

lemma build_registry_entries:
  "registry_entries (boxed_ops env) boxed_config (build_registry cs) = map (\<lambda>(k, ic). (k, k, ic)) cs"
  by (auto simp: registry_entries_def build_registry_def build_injector_fresh)

section \<open>Properties\<close>

text \<open>
  C5: the registry keeps its type. After a run, however it ended, and after a teardown, however it
  ended, the map has the entries of the configuration file: the same keys in the same order, each with
  an injector of the configured kind that carries the key as its id and the configured parameters.
\<close>

theorem registry_keeps_config:
  assumes "Runner_new vs (build_registry cs) ctx = Ok rn"
    and "Runner_run_inner (boxed_ops env) sleep rn tick rt w = Some (r, rn1, w1)"
    and "Runner_teardown (boxed_ops env) rn1 w2 = (r2, rn2, w3)"
  shows "registry_entries (boxed_ops env) boxed_config (rn_injectors rn1) = map (\<lambda>(k, ic). (k, k, ic)) cs
       \<and> registry_entries (boxed_ops env) boxed_config (rn_injectors rn2) = map (\<lambda>(k, ic). (k, k, ic)) cs"
  using boxed_config.run_inner_entries [OF assms(1,2)] boxed_config.teardown_entries [OF assms(3)]
  by (simp add: build_registry_entries)

theorem registry_keeps_config_witness:
  "\<exists>tr rn1 w1. Runner_run_inner (boxed_ops plain_env) (\<lambda>d w. w) demo_runner 2500 True [] = Some (Ok tr, rn1, w1)
     \<and> registry_entries (boxed_ops plain_env) boxed_config
         (rn_injectors (fst (Runner_drop (boxed_ops plain_env) rn1 w1))) =
       [(''skew'', ''skew'', InjectorConfig_TimeSkew [''oms''] 60 0),
        (''loss'', ''loss'', InjectorConfig_XdpPacketLoss ''lo'' 3),
        (''throttle'', ''throttle'', InjectorConfig_FixRateLimitThrottle ''a:1'' ''b:2'' 3)]"
proof -
  obtain tr rn1 w1 where run:
    "Runner_run_inner (boxed_ops plain_env) (\<lambda>d w. w) demo_runner 2500 True [] = Some (Ok tr, rn1, w1)"
    using demo_run_ok by blast
  obtain r2 rn2 w3 where "Runner_teardown (boxed_ops plain_env) rn1 w1 = (r2, rn2, w3)" by (metis prod_cases3)
  with registry_keeps_config [OF demo_new run this] run show ?thesis
    by (simp add: Runner_drop_def demo_injectors_def)
qed

end
