(* ===== verification/Run_Realtime.thy ===== *)
theory Run_Realtime
  imports Runner
begin

text \<open>
  Bounds on time. Virtual time: a step is never fired early and never more than one tick late. Real
  time: \<^verbatim>\<open>run_realtime\<close> sleeps a tick before every round, so by the time it returns at least the
  virtual time of the last round has passed for real. The clock of the world is a parameter
  \<open>elapsed\<close>; the hypothesis \<open>time_passes\<close> is what \<^verbatim>\<open>thread::sleep\<close> documents (at least the given
  duration) and that time does not run backwards while an injector is called.
\<close>

section \<open>Definitions\<close>

definition time_passes :: "('i, 'w) injector_ops \<Rightarrow> (u64 \<Rightarrow> 'w \<Rightarrow> 'w) \<Rightarrow> ('w \<Rightarrow> nat) \<Rightarrow> bool" where
  "time_passes ops sleep elapsed \<longleftrightarrow>
     (\<forall>d w. elapsed w + unat d \<le> elapsed (sleep d w))
     \<and> (\<forall>c i w. elapsed w \<le> elapsed (snd (snd (op_arm ops c i w))))
     \<and> (\<forall>i w. elapsed w \<le> elapsed (snd (snd (op_disarm ops i w))))"

section \<open>Virtual time\<close>

lemma tick_time_bounds:
  assumes "0 < tick" and "unat at + unat tick < 2 ^ 64"
  shows "unat at \<le> unat (tick_time tick at)" and "unat (tick_time tick at) \<le> unat at + unat tick"
    and "0 < at \<Longrightarrow> unat (tick_time tick at) < unat at + unat tick"
proof -
  let ?t = "unat tick" and ?q = "(unat at + unat tick - 1) div unat tick"
  have t: "0 < ?t" using assms(1) by (simp add: word_less_nat_alt)
  have split: "?q * ?t + (unat at + ?t - 1) mod ?t = unat at + ?t - 1" by (rule div_mult_mod_eq)
  have "(unat at + ?t - 1) mod ?t < ?t" using t by simp
  with split t have q: "unat at \<le> ?q * ?t" "?q * ?t < unat at + ?t" by linarith+
  have q0: "?q = 0 \<Longrightarrow> unat at = 0" using q(1) by simp
  have m: "max 1 ?q * ?t \<le> unat at + ?t" "unat at \<le> max 1 ?q * ?t"
    and m': "0 < unat at \<Longrightarrow> max 1 ?q * ?t < unat at + ?t"
    using q q0 by (cases "?q = 0"; simp add: max_def)+
  have "tick_time tick at = of_nat (max 1 ?q * ?t)" by (simp add: tick_time_def)
  then have "unat (tick_time tick at) = max 1 ?q * ?t"
    using m(1) assms(2) by (simp only:) (rule unat_of_nat_u64, linarith)
  with m m' show "unat at \<le> unat (tick_time tick at)" "unat (tick_time tick at) \<le> unat at + unat tick"
    "0 < at \<Longrightarrow> unat (tick_time tick at) < unat at + unat tick"
    by (simp_all add: word_less_nat_alt)
qed

section \<open>Real time\<close>

lemma fire_due_elapsed:
  assumes "fire_due ops ctx now due injs tr w = (r, injs', w')"
    and "fault_id ` set due \<subseteq> dom (map_of injs)" and "time_passes ops sleep elapsed"
  shows "elapsed w \<le> elapsed w'"
  using assms(1,2)
proof (induction due arbitrary: injs tr w)
  case (Cons s due)
  have call: "elapsed v \<le> elapsed v'" if "step_call ops ctx a i v = (q, i', v')" for a i v q i' v'
  proof -
    have "elapsed v \<le> elapsed (snd (snd (step_call ops ctx a i v)))"
      using assms(3) by (simp add: time_passes_def step_call_def split: step_action.split)
    with that show ?thesis by simp
  qed
  from Cons.prems show ?case
  proof (cases rule: fire_due_Cons_cases)
    case (ok i i' w1)
    from call [OF ok(2)] Cons.IH [OF ok(3,4)] show ?thesis by linarith
  qed (auto dest: call)
qed simp

lemma round_elapsed:
  assumes "fire_due ops ctx now due injs tr (sleep tick w) = (r, injs', w')"
    and "fault_id ` set due \<subseteq> dom (map_of injs)" and "time_passes ops sleep elapsed"
  shows "elapsed w + unat tick \<le> elapsed w'"
proof -
  have "elapsed w + unat tick \<le> elapsed (sleep tick w)" using assms(3) by (simp add: time_passes_def)
  with fire_due_elapsed [OF assms] show ?thesis by linarith
qed

lemma run_loop_elapsed:
  assumes "run_loop ops sleep ctx tick True s tr injs w = Some (Ok tr', injs', w')"
    and "time_passes ops sleep elapsed"
    and "sched_inv s" and "fault_id ` set (pending s) \<subseteq> dom (map_of injs)"
    and "sorted (map at_ns (pending s))" and "no_clock_wrap tick (pending s)" and "future_inv tick s"
  shows "elapsed w \<le> elapsed w' \<and> (\<forall>x \<in> set (pending s).
    elapsed w + unat (tick_time tick (at_ns x)) \<le> elapsed w' + unat (Scheduler_now_ns s))"
  using assms(1,3-)
proof (induction s tr injs w "(Ok tr' :: (trace, harness_error) outcome, injs', w')" rule: run_loop_induct)
  case (finished s)
  then show ?case by (simp add: is_finished_iff_pending)
next
  case (step s tr injs w due s' tr1 injs1 w1)
  note reg = advance_registered [OF step.prems(1) step.hyps(2) step.prems(2)]
  note round = advance_round [OF step.prems(1) step.hyps(2,1) step.prems(3,4,5)]
  have "dom (map_of injs1) = dom (map_of injs)"
    using step.hyps(3) reg(1) by (rule fire_due_dom)
  then have IH: "elapsed w1 \<le> elapsed w'" "\<forall>x \<in> set (pending s').
      elapsed w1 + unat (tick_time tick (at_ns x)) \<le> elapsed w' + unat (Scheduler_now_ns s')"
    using step.hyps(4) reg(2,3) round(3,4,5) by simp_all
  have slept: "elapsed w + unat tick \<le> elapsed w1"
    using step.hyps(3) by (intro round_elapsed [OF _ reg(1) assms(2)]) simp
  have "elapsed w + unat (tick_time tick (at_ns x)) \<le> elapsed w' + unat (Scheduler_now_ns s)"
    if "x \<in> set due \<or> x \<in> set (pending s')" for x
    using that
  proof
    assume "x \<in> set due"
    then have "tick_time tick (at_ns x) = Scheduler_now_ns s'" using round(2) by (auto simp: on_tick_def)
    with round(1) slept IH(1) show ?thesis by simp
  next
    assume "x \<in> set (pending s')"
    with IH(2) round(1) slept show ?thesis by fastforce
  qed
  with slept IH(1) Scheduler_advance_split [OF step.prems(1) step.hyps(2)] show ?case
    by (metis Un_iff add_leD1 le_trans set_append)
qed

lemma realtime_event_bounds:
  assumes "ValidatedSchedule_validate sc = Ok vs" and "Runner_new vs injs ctx = Ok rn"
    and "0 < tick" and "no_clock_wrap tick (steps sc)" and "time_passes ops sleep elapsed"
    and "Runner_run_realtime ops sleep rn tick w = Some (Ok tr, rn', w')" and "e \<in> set (events tr)"
  shows "unat (at_ns (ev_step e)) \<le> unat (wall_ns e)
    \<and> unat (wall_ns e) \<le> unat (at_ns (ev_step e)) + unat tick
    \<and> elapsed w + unat (wall_ns e) \<le> elapsed w'"
proof (intro conjI)
  note run = assms(6) [unfolded Runner_run_realtime_def]
  have st: "ValidatedSchedule_steps vs = steps sc" and sorted: "sorted (map at_ns (steps sc))"
    using validated_steps [OF assms(1)] by (auto simp: well_formed_steps_def time_sorted_def)
  have e: "ev_step e \<in> set (steps sc)" "wall_ns e = tick_time tick (at_ns (ev_step e))"
    using run_inner_exact [OF assms(1,2,4) run] assms(7) by auto
  then have "unat (at_ns (ev_step e)) + unat tick < 2 ^ 64" using assms(4) by (simp add: no_clock_wrap_def)
  from tick_time_bounds [OF assms(3) this] e(2)
  show "unat (at_ns (ev_step e)) \<le> unat (wall_ns e)" "unat (wall_ns e) \<le> unat (at_ns (ev_step e)) + unat tick"
    by simp_all
  have "future_inv tick (Scheduler_new vs 0)" by (simp add: future_inv_def)
  with run assms(2,4,5) st sorted e show "elapsed w + unat (wall_ns e) \<le> elapsed w'"
    using run_loop_elapsed [of ops sleep ctx tick "Scheduler_new vs 0" _ injs w tr _ w' elapsed]
    by (auto simp: Runner_run_inner_def Runner_new_Ok split: option.splits)
qed

section \<open>Properties\<close>



end
