(* ===== verification/Bpf_Build.thy ===== *)
theory Bpf_Build
  imports Rust_Os
begin

text \<open>
  \<^verbatim>\<open>kernel/build.rs\<close>: the build script that compiles the BPF sources into the objects the three
  XDP injectors embed. The environment variables cargo sets, the directory and the two programs the
  script runs are the fields of the parameter \<open>build_env\<close>. Every \<^verbatim>\<open>expect\<close> and \<^verbatim>\<open>assert\<close> is a
  panic of the model, so a build that succeeds is one that returns \<open>Ok\<close>.
\<close>

section \<open>Definitions\<close>

text \<open>
  \<open>bd_output\<close> and \<open>bd_status\<close> run a program with arguments and wait for it: the rendered error if it
  could not be started, otherwise whether it succeeded, and its output. An entry of a directory is a
  file name or the rendered error, in the order the directory is read.
\<close>

record 'w build_env =
  bd_println :: "string \<Rightarrow> 'w \<Rightarrow> 'w"
  bd_var :: "string \<Rightarrow> 'w \<Rightarrow> string + string"
  bd_output :: "string \<Rightarrow> string list \<Rightarrow> 'w \<Rightarrow> (string + bool \<times> bytes) \<times> 'w"
  bd_status :: "string \<Rightarrow> string list \<Rightarrow> 'w \<Rightarrow> (string + bool) \<times> 'w"
  bd_read_dir :: "string \<Rightarrow> 'w \<Rightarrow> string + (string + string) list"

definition bpf_arch_define :: "string \<Rightarrow> (string, unit) outcome" where
  "bpf_arch_define target_arch =
     (if target_arch = ''x86_64'' then Ok ''__TARGET_ARCH_x86''
      else if target_arch = ''aarch64'' then Ok ''__TARGET_ARCH_arm64''
      else Panic (''unsupported target architecture for eBPF build: '' @ target_arch
             @ ''. Only x86_64 and aarch64 are known here, see kernel/build.rs.''))"

definition fallback_multiarch :: "string \<Rightarrow> (string, unit) outcome" where
  "fallback_multiarch target_arch =
     (if target_arch = ''x86_64'' then Ok ''x86_64-linux-gnu''
      else if target_arch = ''aarch64'' then Ok ''aarch64-linux-gnu''
      else Panic (''dpkg-architecture isn't available and there's no fallback multiarch path known for ''
             @ target_arch @ '', see kernel/build.rs.''))"

definition multiarch_dir :: "'w build_env \<Rightarrow> string \<Rightarrow> 'w \<Rightarrow> (string, unit) outcome \<times> 'w" where
  "multiarch_dir env target_arch w =
     (case bd_output env ''dpkg-architecture'' [''-qDEB_HOST_MULTIARCH''] w of
        (Inr (True, out), w1) \<Rightarrow> (Ok (bytes_str (str_trim (from_utf8_lossy out))), w1)
      | (_, w1) \<Rightarrow> (fallback_multiarch target_arch, w1))"

definition object_path :: "string \<Rightarrow> string \<Rightarrow> string" where
  "object_path out_dir stem = out_dir @ ''/'' @ to_string_lossy stem @ ''.o''"

definition clang_args :: "string \<Rightarrow> string \<Rightarrow> string \<Rightarrow> string \<Rightarrow> string list" where
  "clang_args macro inc path out_path =
     [''-O2'', ''-target'', ''bpf'', ''-D'' @ macro, ''-I/usr/include/bpf'', inc, ''-c'', path, ''-o'', out_path]"

text \<open>The \<^verbatim>\<open>for\<close> loop over the directory.\<close>

fun compile_entries ::
  "'w build_env \<Rightarrow> string \<Rightarrow> string \<Rightarrow> string \<Rightarrow> (string + string) list \<Rightarrow> 'w \<Rightarrow> (unit, unit) outcome \<times> 'w" where
  "compile_entries env out_dir macro inc [] w = (Ok (), w)"
| "compile_entries env out_dir macro inc (Inl e # entries) w = (Panic (''readdir entry: '' @ e), w)"
| "compile_entries env out_dir macro inc (Inr f # entries) w =
     (let path = path_join ''bpf'' f
      in if Option.bind (path_extension path) os_to_str \<noteq> Some ''c''
         then compile_entries env out_dir macro inc entries w
         else case path_file_stem path of
           None \<Rightarrow> (Panic ''bpf source has no filename'', w)
         | Some stem \<Rightarrow>
             (case bd_status env ''clang'' (clang_args macro inc path (object_path out_dir stem)) w of
                (Inl e, w1) \<Rightarrow> (Panic (''failed to invoke clang, is it installed?: '' @ e), w1)
              | (Inr False, w1) \<Rightarrow> (Panic (''clang failed to compile '' @ to_string_lossy path), w1)
              | (Inr True, w1) \<Rightarrow> compile_entries env out_dir macro inc entries w1))"

definition build_main :: "'w build_env \<Rightarrow> 'w \<Rightarrow> (unit, unit) outcome \<times> 'w" where
  "build_main env w0 =
     (let w = bd_println env ''cargo:rerun-if-changed=bpf'' w0
      in case bd_var env ''OUT_DIR'' w of
           Inl e \<Rightarrow> (Panic (''OUT_DIR not set by cargo: '' @ e), w)
         | Inr out_dir \<Rightarrow>
      (case bd_var env ''TARGET'' w of
           Inl e \<Rightarrow> (Panic (''TARGET not set by cargo: '' @ e), w)
         | Inr target \<Rightarrow>
      (case split_on (\<lambda>c. c = CHR ''-'') target of
           [] \<Rightarrow> (Panic ''malformed TARGET triple'', w)
         | target_arch # _ \<Rightarrow>
      (case bpf_arch_define target_arch of
           Panic m \<Rightarrow> (Panic m, w)
         | Err e \<Rightarrow> (Err e, w)
         | Ok macro \<Rightarrow>
      (case multiarch_dir env target_arch w of
           (Panic m, w1) \<Rightarrow> (Panic m, w1)
         | (Err e, w1) \<Rightarrow> (Err e, w1)
         | (Ok dir, w1) \<Rightarrow>
      (case bd_read_dir env ''bpf'' w1 of
           Inl e \<Rightarrow> (Panic (''bpf/ directory missing: '' @ e), w1)
         | Inr entries \<Rightarrow>
             compile_entries env out_dir macro (''-I/usr/include/'' @ dir) entries w1))))))"

section \<open>Which files are sources\<close>

text \<open>A source is a file whose name is a non-empty stem followed by \<^verbatim>\<open>.c\<close>.\<close>

definition c_source :: "string \<Rightarrow> bool" where
  "c_source f \<longleftrightarrow> (\<exists>stem. stem \<noteq> [] \<and> f = stem @ ''.c'')"

definition source_stem :: "string \<Rightarrow> string" where
  "source_stem f = take (length f - 2) f"

lemma source_stem_append [simp]: "source_stem (stem @ ''.c'') = stem"
  by (simp add: source_stem_def)

lemma c_source_code [code]: "c_source f \<longleftrightarrow> 2 < length f \<and> drop (length f - 2) f = ''.c''"
proof
  assume "2 < length f \<and> drop (length f - 2) f = ''.c''"
  then show "c_source f"
    unfolding c_source_def by (metis append_take_drop_id length_greater_0_conv length_take min_less_iff_conj
        zero_less_diff less_trans zero_less_numeral)
qed (auto simp: c_source_def)

lemma bpf_file_name: "file_name_ok f \<Longrightarrow> path_file_name (path_join ''bpf'' f) = Some f"
  by (rule path_file_name_join) simp_all

lemma entry_is_source:
  assumes "file_name_ok f"
  shows "Option.bind (path_extension (path_join ''bpf'' f)) os_to_str = Some ''c'' \<longleftrightarrow> c_source f"
proof
  assume "Option.bind (path_extension (path_join ''bpf'' f)) os_to_str = Some ''c''"
  then obtain e where e: "path_extension (path_join ''bpf'' f) = Some e" "os_to_str e = Some ''c''"
    by (auto simp: bind_eq_Some_conv)
  then have "e = ''c''" by (simp add: os_to_str_def split: if_splits)
  with e obtain b where "rsplit_file_at_dot f = (Some b, Some ''c'')"
    by (auto simp: path_extension_def bpf_file_name [OF assms] split: prod.splits option.splits)
  from rsplit_at_dot_cases [OF this] show "c_source f" by (auto simp: c_source_def)
next
  assume "c_source f"
  then obtain b where b: "b \<noteq> []" "f = b @ CHR ''.'' # ''c''" by (auto simp: c_source_def)
  have "rsplit_file_at_dot f = (Some b, Some ''c'')" unfolding b(2) using b by (intro rsplit_at_last_dot) auto
  moreover have "os_to_str ''c'' = Some ''c''"
    by (simp add: os_to_str_def str_bytes_def of_char_def)
  ultimately show "Option.bind (path_extension (path_join ''bpf'' f)) os_to_str = Some ''c''"
    by (simp add: path_extension_def bpf_file_name [OF assms])
qed

lemma entry_stem:
  assumes "file_name_ok f" and "c_source f"
  shows "path_file_stem (path_join ''bpf'' f) = Some (source_stem f)"
proof -
  obtain b where b: "b \<noteq> []" "f = b @ CHR ''.'' # ''c''" using assms(2) by (auto simp: c_source_def)
  have "rsplit_file_at_dot f = (Some b, Some ''c'')" unfolding b(2) using b by (intro rsplit_at_last_dot) auto
  then have "path_file_stem (path_join ''bpf'' f) = Some b"
    by (simp add: path_file_stem_def bpf_file_name [OF assms(1)])
  then show ?thesis using b(2) by simp
qed

section \<open>What a build runs\<close>

text \<open>The reference: one call of \<^verbatim>\<open>clang\<close> per source, in order, up to the first that fails.\<close>

definition compile_command :: "string \<Rightarrow> string \<Rightarrow> string \<Rightarrow> string \<Rightarrow> string list" where
  "compile_command out_dir macro inc f =
     clang_args macro inc (path_join ''bpf'' f) (object_path out_dir (source_stem f))"

fun run_all :: "'w build_env \<Rightarrow> string list list \<Rightarrow> 'w \<Rightarrow> 'w option" where
  "run_all env [] w = Some w"
| "run_all env (args # rest) w =
     (case bd_status env ''clang'' args w of (Inr True, w1) \<Rightarrow> run_all env rest w1 | _ \<Rightarrow> None)"

text \<open>Reading a directory returns names, not paths.\<close>

definition names_plain :: "'w build_env \<Rightarrow> bool" where
  "names_plain env \<longleftrightarrow> (\<forall>p w es f. bd_read_dir env p w = Inr es \<longrightarrow> Inr f \<in> set es \<longrightarrow> file_name_ok f)"

lemma compile_entries_Ok:
  assumes "\<forall>f. Inr f \<in> set entries \<longrightarrow> file_name_ok f"
  shows "compile_entries env out_dir macro inc entries w = (Ok (), w') \<longleftrightarrow>
    (\<exists>names. entries = map Inr names
       \<and> run_all env (map (compile_command out_dir macro inc) (filter c_source names)) w = Some w')"
  using assms
proof (induction entries arbitrary: w)
  case (Cons e entries)
  show ?case
  proof (cases e)
    case (Inl err)
    then show ?thesis by (auto simp: Cons_eq_map_conv)
  next
    case (Inr f)
    have f: "file_name_ok f" using Cons.prems Inr by simp
    have IH: "compile_entries env out_dir macro inc entries v = (Ok (), w') \<longleftrightarrow>
      (\<exists>names. entries = map Inr names
         \<and> run_all env (map (compile_command out_dir macro inc) (filter c_source names)) v = Some w')" for v
      using Cons by simp
    show ?thesis
      using entry_is_source [OF f] entry_stem [OF f]
      by (cases "c_source f")
        (auto simp: Inr IH Cons_eq_map_conv Let_def compile_command_def [of _ _ _ f] split: prod.splits sum.splits bool.splits)
  qed
qed simp

lemma arch_known:
  "bpf_arch_define arch = Ok macro \<Longrightarrow> multiarch_dir env arch w \<noteq> (Panic m, w')"
  "multiarch_dir env arch w \<noteq> (Err e, w')" "bpf_arch_define arch \<noteq> Err e"
  by (auto simp: bpf_arch_define_def multiarch_dir_def fallback_multiarch_def split: if_splits prod.splits
      sum.splits bool.splits)

text \<open>Before the first program is run the target has been checked; an unknown one ends the build there.\<close>

lemma unsupported_target_runs_nothing:
  assumes "bd_println env ''cargo:rerun-if-changed=bpf'' w = w1"
    and "bd_var env ''OUT_DIR'' w1 = Inr out_dir" and "bd_var env ''TARGET'' w1 = Inr target"
    and "takeWhile (\<lambda>c. c \<noteq> CHR ''-'') target \<notin> {''x86_64'', ''aarch64''}"
  shows "\<exists>m. build_main env w = (Panic m, w1)"
proof -
  obtain m where "bpf_arch_define (takeWhile (\<lambda>c. c \<noteq> CHR ''-'') target) = Panic m"
    using assms(4) by (simp add: bpf_arch_define_def)
  then show ?thesis
    unfolding build_main_def Let_def assms(1,2,3) by (subst split_on_first) (simp add: assms(2,3))
qed

text \<open>Different sources make different objects, so none is overwritten by another.\<close>

lemma compile_command_output: "last (compile_command out_dir macro inc f) = object_path out_dir (source_stem f)"
  by (simp add: compile_command_def clang_args_def)

lemma c_source_stem: "c_source f \<Longrightarrow> f = source_stem f @ ''.c''"
  by (auto simp: c_source_def)

lemma objects_distinct:
  assumes "distinct names" and "\<forall>f \<in> set names. c_source f \<longrightarrow> utf8_valid (str_bytes (source_stem f))"
  shows "distinct (map (last \<circ> compile_command out_dir macro inc) (filter c_source names))"
proof -
  have "inj_on (last \<circ> compile_command out_dir macro inc) (set (filter c_source names))"
  proof (rule inj_onI)
    fix f g
    assume f: "f \<in> set (filter c_source names)" and g: "g \<in> set (filter c_source names)"
      and "(last \<circ> compile_command out_dir macro inc) f = (last \<circ> compile_command out_dir macro inc) g"
    then have "to_string_lossy (source_stem f) = to_string_lossy (source_stem g)"
      by (simp add: compile_command_output object_path_def)
    then have "source_stem f = source_stem g" using assms(2) f g by simp
    moreover have "c_source f" "c_source g" using f g by simp_all
    ultimately show "f = g" by (metis c_source_stem)
  qed
  with assms(1) show ?thesis by (simp add: distinct_map)
qed

text \<open>The objects of the repository's sources are the ones the injectors embed by name.\<close>

lemma embedded_objects:
  assumes "stem \<in> {''xdp_pktloss'', ''xdp_corrupt'', ''xdp_partition''}"
  shows "last (compile_command out_dir macro inc (stem @ ''.c'')) = out_dir @ ''/'' @ stem @ ''.o''"
proof -
  have "to_string_lossy ''xdp_pktloss'' = ''xdp_pktloss''" "to_string_lossy ''xdp_corrupt'' = ''xdp_corrupt''"
    "to_string_lossy ''xdp_partition'' = ''xdp_partition''" by code_simp+
  with assms show ?thesis
    unfolding compile_command_output source_stem_append object_path_def by auto
qed

section \<open>Properties\<close>

text \<open>
  C40: the build script succeeds exactly if cargo's two variables are set, the target is one of the two
  architectures, the directory can be read to its end, and every source in it compiles: \<^verbatim>\<open>clang\<close> is run
  once for each file named like a C source, in the order of the directory, with the architecture's
  macro defined and the object named after the source, and for nothing else.
\<close>

theorem build_exact:
  assumes "names_plain env" and w1: "bd_println env ''cargo:rerun-if-changed=bpf'' w = w1"
  shows "build_main env w = (Ok (), w') \<longleftrightarrow>
    (\<exists>out_dir target macro dir w2 names.
       bd_var env ''OUT_DIR'' w1 = Inr out_dir \<and> bd_var env ''TARGET'' w1 = Inr target
       \<and> (takeWhile (\<lambda>c. c \<noteq> CHR ''-'') target, macro)
            \<in> {(''x86_64'', ''__TARGET_ARCH_x86''), (''aarch64'', ''__TARGET_ARCH_arm64'')}
       \<and> multiarch_dir env (takeWhile (\<lambda>c. c \<noteq> CHR ''-'') target) w1 = (Ok dir, w2)
       \<and> bd_read_dir env ''bpf'' w2 = Inr (map Inr names)
       \<and> run_all env (map (compile_command out_dir macro (''-I/usr/include/'' @ dir)) (filter c_source names)) w2
           = Some w')"
proof -
  have loop: "bd_read_dir env ''bpf'' v = Inr entries \<Longrightarrow>
      compile_entries env out_dir macro inc entries v = (Ok (), w') \<longleftrightarrow>
      (\<exists>names. entries = map Inr names
         \<and> run_all env (map (compile_command out_dir macro inc) (filter c_source names)) v = Some w')"
    for v entries out_dir macro inc
    using assms(1) by (intro compile_entries_Ok) (auto simp: names_plain_def)
  have arch: "(a, macro) \<in> {(''x86_64'', ''__TARGET_ARCH_x86''), (''aarch64'', ''__TARGET_ARCH_arm64'')}
      \<longleftrightarrow> bpf_arch_define a = Ok macro" for a macro
    by (auto simp: bpf_arch_define_def)
  show ?thesis
    unfolding build_main_def w1 Let_def arch
    by (subst split_on_first)
      (auto simp: loop arch_known split: sum.splits outcome.splits prod.splits)
qed

text \<open>A Debian machine; its world is the log of the compilations.\<close>

definition debian_env :: "string list list build_env" where
  "debian_env =
     \<lparr>bd_println = \<lambda>s w. w,
      bd_var = \<lambda>v w. if v = ''OUT_DIR'' then Inr ''/out'' else if v = ''TARGET'' then Inr ''x86_64-unknown-linux-gnu''
        else Inl ''NotPresent'',
      bd_output = \<lambda>p args w. (Inr (True, str_bytes ''x86_64-linux-gnu'' @ [0x0A]), w),
      bd_status = \<lambda>p args w. (Inr True, w @ [args]),
      bd_read_dir = \<lambda>p w. Inr (map Inr [''README.md'', ''xdp_pktloss.c'', ''.c''])\<rparr>"

lemma debian_simps:
  "bd_println debian_env t w = w" "bd_var debian_env ''OUT_DIR'' w = Inr ''/out''"
  "bd_var debian_env ''TARGET'' w = Inr ''x86_64-unknown-linux-gnu''"
  "bd_status debian_env p args w = (Inr True, w @ [args])"
  "bd_read_dir debian_env p w = Inr [Inr ''README.md'', Inr ''xdp_pktloss.c'', Inr ''.c'']"
  by (simp_all add: debian_env_def)

lemma debian_names: "names_plain debian_env"
  by (auto simp: names_plain_def debian_env_def file_name_ok_def plain_component_def)

lemma debian_dir: "multiarch_dir debian_env ''x86_64'' w = (Ok ''x86_64-linux-gnu'', w)"
proof -
  have "bytes_str (str_trim (from_utf8_lossy (str_bytes ''x86_64-linux-gnu'' @ [0x0A]))) = ''x86_64-linux-gnu''"
    by code_simp
  then show ?thesis by (simp add: multiarch_dir_def debian_env_def)
qed

theorem build_exact_witness:
  "build_main debian_env [] = (Ok (), [[''-O2'', ''-target'', ''bpf'', ''-D__TARGET_ARCH_x86'', ''-I/usr/include/bpf'',
     ''-I/usr/include/x86_64-linux-gnu'', ''-c'', ''bpf/xdp_pktloss.c'', ''-o'', ''/out/xdp_pktloss.o'']])"
proof -
  have stem: "to_string_lossy ''xdp_pktloss'' = ''xdp_pktloss''" by code_simp
  have "compile_command ''/out'' ''__TARGET_ARCH_x86'' ''-I/usr/include/x86_64-linux-gnu'' ''xdp_pktloss.c'' =
    [''-O2'', ''-target'', ''bpf'', ''-D__TARGET_ARCH_x86'', ''-I/usr/include/bpf'',
     ''-I/usr/include/x86_64-linux-gnu'', ''-c'', ''bpf/xdp_pktloss.c'', ''-o'', ''/out/xdp_pktloss.o'']"
    by (simp add: compile_command_def clang_args_def source_stem_def object_path_def stem path_join_def starts_with_def)
  then show ?thesis
    by (subst build_exact [OF debian_names refl])
      (simp add: debian_simps debian_dir c_source_code Cons_eq_map_conv)
qed

end
