(* ===== verification/Tests_Support.thy ===== *)
theory Tests_Support
  imports Harness_Prelude
begin

text \<open>
  How a unit test of the source is written as a truth value: it passes if no \<^verbatim>\<open>unwrap\<close> in it panics and
  every assertion holds.
\<close>

text \<open>\<^verbatim>\<open>unwrap\<close>: a test goes on with the value, and fails where there is none.\<close>

fun unwrap_then :: "('a, 'e) outcome \<Rightarrow> ('a \<Rightarrow> bool) \<Rightarrow> bool" where
  "unwrap_then (Ok x) k = k x"
| "unwrap_then (Err e) k = False"
| "unwrap_then (Panic m) k = False"

fun is_err :: "('a, 'e) outcome \<Rightarrow> bool" where
  "is_err (Err e) = True"
| "is_err _ = False"

fun some_then :: "'a option \<Rightarrow> ('a \<Rightarrow> bool) \<Rightarrow> bool" where
  "some_then (Some x) k = k x"
| "some_then None k = False"

text \<open>A test is evaluated in order: what follows an \<^verbatim>\<open>unwrap\<close> only once its value is known.\<close>

lemma unwrap_then_weak [cong]: "r = r' \<Longrightarrow> unwrap_then r k = unwrap_then r' k"
  by simp

lemma some_then_weak [cong]: "r = r' \<Longrightarrow> some_then r k = some_then r' k"
  by simp

end
