(* ===== verification/Tests_Fix.thy ===== *)
theory Tests_Fix
  imports Fix_Adapter Tests_Support
begin

text \<open>
  The unit tests of \<^verbatim>\<open>message.rs\<close>, \<^verbatim>\<open>framing.rs\<close> and \<^verbatim>\<open>adapter.rs\<close>, each as a truth value over
  the model: a test passes if no \<^verbatim>\<open>unwrap\<close> in it panics and every assertion holds. That they all
  pass is evaluated by the kernel, and ties the definitions of the model to the examples the authors
  of the code checked by hand, among them a message from a FIX reference with its known checksum.
\<close>

section \<open>Definitions\<close>

definition windows :: "nat \<Rightarrow> 'a list \<Rightarrow> 'a list list" where
  "windows n xs = map (\<lambda>i. take n (drop i xs)) [0..<length xs + 1 - n]"

definition rposition :: "('a \<Rightarrow> bool) \<Rightarrow> 'a list \<Rightarrow> nat option" where
  "rposition P xs = map_option (\<lambda>i. length xs - 1 - i) (position P (rev xs))"

text \<open>A string literal in which the separator is written as a bar.\<close>

definition with_pipes :: "string \<Rightarrow> bytes" where
  "with_pipes s = map (\<lambda>b. if b = 0x7C then SOH else b) (str_bytes s)"

definition reference_message :: bytes where
  "reference_message = with_pipes
     ''8=FIX.4.2|9=65|35=A|49=SERVER|56=CLIENT|34=177|52=20090107-18:15:16|98=0|108=30|10=062|''"

text \<open>\<^verbatim>\<open>windows(4).rposition(..).unwrap() + 1\<close>: where the checksum field starts.\<close>

definition checksum_field_start :: "bytes \<Rightarrow> nat option" where
  "checksum_field_start full = map_option (\<lambda>i. i + 1) (rposition (\<lambda>w. w = [SOH, 0x31, 0x30, 0x3D]) (windows 4 full))"

subsection \<open>Messages\<close>

definition test_parses_reference_message_fields :: bool where
  "test_parses_reference_message_fields =
     unwrap_then (parse reference_message) (\<lambda>msg.
       FixMessage_is msg 8 (str_bytes ''FIX.4.2'') \<and> FixMessage_is msg 9 (str_bytes ''65'')
       \<and> FixMessage_is msg 35 (str_bytes ''A'') \<and> FixMessage_is msg 49 (str_bytes ''SERVER'')
       \<and> FixMessage_is msg 56 (str_bytes ''CLIENT'') \<and> FixMessage_is msg 10 (str_bytes ''062''))"

definition test_checksum_matches_the_known_correct_value :: bool where
  "test_checksum_matches_the_known_correct_value =
     some_then (checksum_field_start reference_message) (\<lambda>start.
       format_checksum (compute_checksum (take start reference_message)) = str_bytes ''062'')"

definition test_rejects_empty_input :: bool where
  "test_rejects_empty_input \<longleftrightarrow> parse [] = Err Empty"

definition test_rejects_field_without_equals :: bool where
  "test_rejects_field_without_equals \<longleftrightarrow> parse (with_pipes ''35D|'') = Err MalformedTag"

definition message_with_body :: "bytes \<Rightarrow> bytes" where
  "message_with_body body =
     (let header = with_pipes ''8=FIX.4.4|9='' @ dec_bytes (length body) @ [SOH];
          full = header @ body
      in full @ str_bytes ''10='' @ dec3_bytes (unat (compute_checksum full)) @ [SOH])"

definition test_set_field_replaces_the_value_and_recomputes_length_and_checksum :: bool where
  "test_set_field_replaces_the_value_and_recomputes_length_and_checksum =
     (let original = message_with_body (with_pipes ''35=8|39=1|150=F|44=100.50|'')
      in unwrap_then (set_field original 44 (str_bytes ''999.99'')) (\<lambda>mutated.
         unwrap_then (parse mutated) (\<lambda>reparsed.
           FixMessage_is reparsed 44 (str_bytes ''999.99'') \<and> FixMessage_is reparsed 35 (str_bytes ''8'')
           \<and> FixMessage_is reparsed 39 (str_bytes ''1'') \<and> FixMessage_is reparsed 150 (str_bytes ''F'')
           \<and> FixMessage_is reparsed 8 (str_bytes ''FIX.4.4'')
           \<and> some_then (FixMessage_get reparsed 9) (\<lambda>tag9_value.
             some_then (from_utf8 tag9_value) (\<lambda>s.
             some_then (parse_unsigned 64 s) (\<lambda>declared_body_len.
             some_then (position (\<lambda>b. b = SOH) mutated) (\<lambda>first_soh.
             some_then (position (\<lambda>b. b = SOH) (drop (first_soh + 1) mutated)) (\<lambda>rel.
             some_then (checksum_field_start mutated) (\<lambda>start.
               let second_soh = first_soh + 1 + rel; header_len = second_soh + 1
               in declared_body_len = start - header_len
                  \<and> FixMessage_is reparsed 10 (format_checksum (compute_checksum (take start mutated))))))))))))"

definition test_set_field_on_a_tag_not_present_leaves_the_message_otherwise_valid :: bool where
  "test_set_field_on_a_tag_not_present_leaves_the_message_otherwise_valid =
     unwrap_then (set_field reference_message 999 (str_bytes ''whatever'')) (\<lambda>mutated.
       unwrap_then (parse mutated) (\<lambda>reparsed.
         FixMessage_get reparsed 999 = None \<and> FixMessage_is reparsed 35 (str_bytes ''A'')))"

subsection \<open>Framing\<close>

definition test_finds_exact_length_of_a_single_complete_message :: "profile \<Rightarrow> bool" where
  "test_finds_exact_length_of_a_single_complete_message p \<longleftrightarrow>
     find_complete_message p reference_message = Ok (Some (length reference_message))"

definition test_finds_only_the_first_of_two_concatenated_messages :: "profile \<Rightarrow> bool" where
  "test_finds_only_the_first_of_two_concatenated_messages p =
     (let one = reference_message; two = one @ one
      in unwrap_then (find_complete_message p two) (\<lambda>r. some_then r (\<lambda>found.
           found = length one
           \<and> find_complete_message p (drop found two) = Ok (Some (length one)))))"

definition test_returns_none_for_a_truncated_message :: "profile \<Rightarrow> bool" where
  "test_returns_none_for_a_truncated_message p \<longleftrightarrow>
     find_complete_message p (take (length reference_message - 10) reference_message) = Ok None"

definition test_returns_none_for_just_a_partial_begin_string :: "profile \<Rightarrow> bool" where
  "test_returns_none_for_just_a_partial_begin_string p \<longleftrightarrow> find_complete_message p (str_bytes ''8=FIX.4'') = Ok None"

definition test_rejects_a_buffer_not_starting_with_tag_8 :: "profile \<Rightarrow> bool" where
  "test_rejects_a_buffer_not_starting_with_tag_8 p \<longleftrightarrow>
     is_err (find_complete_message p (with_pipes ''35=D|''))"

subsection \<open>Adapters\<close>

definition reference_execution_report :: "string \<Rightarrow> string \<Rightarrow> bytes" where
  "reference_execution_report ord_status exec_type =
     message_with_body (with_pipes (''35=8|39='' @ ord_status @ ''|150='' @ exec_type @ ''|''))"

definition reference_execution_report_with_price :: "string \<Rightarrow> string \<Rightarrow> string \<Rightarrow> bytes" where
  "reference_execution_report_with_price ord_status exec_type price =
     message_with_body (with_pipes (''35=8|39='' @ ord_status @ ''|150='' @ exec_type @ ''|44='' @ price @ ''|''))"

definition inbound_msg :: "bytes \<Rightarrow> raw_message" where
  "inbound_msg bs = \<lparr>msg_bytes = bs, msg_direction = Inbound\<rparr>"

definition outbound_msg :: "bytes \<Rightarrow> raw_message" where
  "outbound_msg bs = \<lparr>msg_bytes = bs, msg_direction = Outbound\<rparr>"

definition test_silent_reject_drops_rejected_execution_report :: bool where
  "test_silent_reject_drops_rejected_execution_report \<longleftrightarrow>
     FixSilentReject_intercept (inbound_msg (reference_execution_report ''8'' ''8'')) = Ok Drop"

definition test_silent_reject_forwards_a_new_ack :: bool where
  "test_silent_reject_forwards_a_new_ack \<longleftrightarrow>
     FixSilentReject_intercept (inbound_msg (reference_execution_report ''0'' ''0'')) = Ok Forward"

definition test_silent_reject_ignores_outbound_traffic :: bool where
  "test_silent_reject_ignores_outbound_traffic \<longleftrightarrow>
     FixSilentReject_intercept (outbound_msg (reference_execution_report ''8'' ''8'')) = Ok Forward"

definition test_ack_without_execution_drops_a_fill_but_not_the_ack :: bool where
  "test_ack_without_execution_drops_a_fill_but_not_the_ack \<longleftrightarrow>
     FixAckWithoutExecution_intercept (inbound_msg (reference_execution_report ''0'' ''0'')) = Ok Forward
     \<and> FixAckWithoutExecution_intercept (inbound_msg (reference_execution_report ''2'' ''F'')) = Ok Drop"

definition test_rate_limit_throttle_allows_up_to_threshold_then_drops :: "profile \<Rightarrow> bool" where
  "test_rate_limit_throttle_allows_up_to_threshold_then_drops p =
     (let msg = outbound_msg (reference_execution_report ''0'' ''0'');
          (r1, a1) = FixRateLimitThrottle_intercept p (FixRateLimitThrottle_new 2) msg;
          (r2, a2) = FixRateLimitThrottle_intercept p a1 msg;
          (r3, a3) = FixRateLimitThrottle_intercept p a2 msg;
          (r4, a4) = FixRateLimitThrottle_intercept p a3 msg
      in r1 = Ok Forward \<and> r2 = Ok Forward \<and> r3 = Ok Drop \<and> r4 = Ok Drop)"

definition test_rate_limit_throttle_ignores_inbound_traffic :: "profile \<Rightarrow> bool" where
  "test_rate_limit_throttle_ignores_inbound_traffic p \<longleftrightarrow>
     fst (FixRateLimitThrottle_intercept p (FixRateLimitThrottle_new 0)
            (inbound_msg (reference_execution_report ''0'' ''0''))) = Ok Forward"

definition test_price_mutation_rewrites_the_price_on_a_fill :: bool where
  "test_price_mutation_rewrites_the_price_on_a_fill =
     unwrap_then (FixExecutionReportPriceMutation_intercept (FixExecutionReportPriceMutation_new (str_bytes ''1.00''))
         (inbound_msg (reference_execution_report_with_price ''2'' ''F'' ''100.50''))) (\<lambda>action.
       case action of
         Mutate bs \<Rightarrow> unwrap_then (parse bs) (\<lambda>parsed.
           FixMessage_is parsed TAG_PRICE (str_bytes ''1.00'') \<and> FixMessage_is parsed TAG_EXEC_TYPE (str_bytes ''F''))
       | _ \<Rightarrow> False)"

definition test_price_mutation_forwards_an_execution_report_with_no_price_field :: bool where
  "test_price_mutation_forwards_an_execution_report_with_no_price_field \<longleftrightarrow>
     FixExecutionReportPriceMutation_intercept (FixExecutionReportPriceMutation_new (str_bytes ''1.00''))
       (inbound_msg (reference_execution_report ''0'' ''0'')) = Ok Forward"

definition test_price_mutation_forwards_non_execution_report_messages :: bool where
  "test_price_mutation_forwards_non_execution_report_messages \<longleftrightarrow>
     FixExecutionReportPriceMutation_intercept (FixExecutionReportPriceMutation_new (str_bytes ''1.00''))
       (inbound_msg (reference_execution_report ''8'' ''8'')) = Ok Forward"

definition test_price_mutation_ignores_outbound_traffic :: bool where
  "test_price_mutation_ignores_outbound_traffic \<longleftrightarrow>
     FixExecutionReportPriceMutation_intercept (FixExecutionReportPriceMutation_new (str_bytes ''1.00''))
       (outbound_msg (reference_execution_report_with_price ''2'' ''F'' ''100.50'')) = Ok Forward"

section \<open>Evaluation\<close>

text \<open>What it takes to compute with bytes, numbers and messages.\<close>

named_theorems fix_eval

lemmas [fix_eval] =
  str_bytes_def with_pipes_def of_char_def SOH_def Let_def is_digit_def parse_unsigned_def utf8_width_def
  from_utf8_def dec3_bytes_def dec_bytes_def digit_byte_def compute_checksum_def
  format_checksum_def parse_def set_field_def FixMessage_is_def FixMessage_get_def
  TAG_MSG_TYPE_def TAG_ORD_STATUS_def TAG_EXEC_TYPE_def TAG_PRICE_def MSG_TYPE_EXECUTION_REPORT_def
  MSG_TYPE_ORDER_CANCEL_REJECT_def MSG_TYPE_REJECT_def ORD_STATUS_PARTIALLY_FILLED_def ORD_STATUS_FILLED_def
  ORD_STATUS_REJECTED_def EXEC_TYPE_TRADE_def EXEC_TYPE_REJECTED_def rejected_by_def inbound_msg_def outbound_msg_def

lemma dec_digits_eval [fix_eval]:
  "n < 10 \<Longrightarrow> dec_digits n = [n]" "10 \<le> n \<Longrightarrow> dec_digits n = dec_digits (n div 10) @ [n mod 10]"
  by (simp_all add: dec_digits.simps [of n])

lemma reference_message_bytes [fix_eval]:
  "reference_message =
     [56, 61, 70, 73, 88, 46, 52, 46, 50, 1, 57, 61, 54, 53, 1, 51, 53, 61, 65, 1, 52, 57, 61, 83, 69, 82, 86, 69, 82, 1,
      53, 54, 61, 67, 76, 73, 69, 78, 84, 1, 51, 52, 61, 49, 55, 55, 1, 53, 50, 61, 50, 48, 48, 57, 48, 49, 48, 55, 45,
      49, 56, 58, 49, 53, 58, 49, 54, 1, 57, 56, 61, 48, 1, 49, 48, 56, 61, 51, 48, 1, 49, 48, 61, 48, 54, 50, 1]"
  by (simp add: reference_message_def with_pipes_def str_bytes_def of_char_def SOH_def)

lemmas checksum_start_eval = checksum_field_start_def windows_def rposition_def upt_rec

section \<open>The tests pass\<close>

lemma parses_reference_message_fields: "test_parses_reference_message_fields"
  by (simp add: test_parses_reference_message_fields_def fix_eval)

lemma checksum_matches_the_known_correct_value: "test_checksum_matches_the_known_correct_value"
proof -
  have "checksum_field_start reference_message = Some 80" by (simp add: fix_eval checksum_start_eval)
  then show ?thesis by (simp add: test_checksum_matches_the_known_correct_value_def fix_eval)
qed

lemma rejects_empty_input: "test_rejects_empty_input"
  by (simp add: test_rejects_empty_input_def parse_def)

lemma rejects_field_without_equals: "test_rejects_field_without_equals"
  by (simp add: test_rejects_field_without_equals_def fix_eval)

lemma set_field_on_a_tag_not_present_leaves_the_message_otherwise_valid: "test_set_field_on_a_tag_not_present_leaves_the_message_otherwise_valid"
  by (simp add: test_set_field_on_a_tag_not_present_leaves_the_message_otherwise_valid_def fix_eval)

lemma set_field_replaces_the_value_and_recomputes_length_and_checksum: "test_set_field_replaces_the_value_and_recomputes_length_and_checksum"
  by (simp add: test_set_field_replaces_the_value_and_recomputes_length_and_checksum_def message_with_body_def fix_eval
      checksum_start_eval)

lemma framing_tests_pass:
  "test_finds_exact_length_of_a_single_complete_message p"
  "test_finds_only_the_first_of_two_concatenated_messages p"
  "test_returns_none_for_a_truncated_message p" "test_returns_none_for_just_a_partial_begin_string p"
  "test_rejects_a_buffer_not_starting_with_tag_8 p"
  by (simp_all add: test_finds_exact_length_of_a_single_complete_message_def
      test_finds_only_the_first_of_two_concatenated_messages_def test_returns_none_for_a_truncated_message_def
      test_returns_none_for_just_a_partial_begin_string_def test_rejects_a_buffer_not_starting_with_tag_8_def
      find_complete_message_def starts_with_def usize_add_def fix_eval)

lemmas report_eval =
  reference_execution_report_def reference_execution_report_with_price_def message_with_body_def fix_eval

lemma drop_adapter_tests_pass:
  "test_silent_reject_drops_rejected_execution_report" "test_silent_reject_forwards_a_new_ack"
  "test_silent_reject_ignores_outbound_traffic" "test_ack_without_execution_drops_a_fill_but_not_the_ack"
  by (simp_all add: test_silent_reject_drops_rejected_execution_report_def test_silent_reject_forwards_a_new_ack_def
      test_silent_reject_ignores_outbound_traffic_def test_ack_without_execution_drops_a_fill_but_not_the_ack_def
      FixSilentReject_intercept_def FixAckWithoutExecution_intercept_def report_eval)

lemma throttle_tests_pass:
  "test_rate_limit_throttle_allows_up_to_threshold_then_drops p" "test_rate_limit_throttle_ignores_inbound_traffic p"
  by (simp_all add: test_rate_limit_throttle_allows_up_to_threshold_then_drops_def
      test_rate_limit_throttle_ignores_inbound_traffic_def FixRateLimitThrottle_intercept_def
      FixRateLimitThrottle_new_def inbound_msg_def outbound_msg_def)

lemma price_mutation_tests_pass:
  "test_price_mutation_rewrites_the_price_on_a_fill"
  "test_price_mutation_forwards_an_execution_report_with_no_price_field"
  "test_price_mutation_forwards_non_execution_report_messages" "test_price_mutation_ignores_outbound_traffic"
  by (simp_all add: test_price_mutation_rewrites_the_price_on_a_fill_def
      test_price_mutation_forwards_an_execution_report_with_no_price_field_def
      test_price_mutation_forwards_non_execution_report_messages_def test_price_mutation_ignores_outbound_traffic_def
      FixExecutionReportPriceMutation_intercept_def FixExecutionReportPriceMutation_new_def report_eval)

end
