(* ===== verification/Tests_Replay.thy ===== *)
theory Tests_Replay
  imports Rng Run_Realtime Rust_Os Tests_Support
begin

text \<open>
  The unit tests of the core and replay crates and the replay crate's integration test, each as a truth
  value over the model, and the proof that they pass: by evaluation where the test is one concrete run,
  and from the lemmas of the components where it loops over many draws, writes a file or measures time.
  The file system and the clock of the world stay parameters there.
\<close>

section \<open>Definitions\<close>

subsection \<open>Clock, schedule, scheduler\<close>

definition test_virtual_clock_only_moves_when_told :: bool where
  "test_virtual_clock_only_moves_when_told =
     (let clock = VirtualClock_new 1000
      in VirtualClock_now_ns clock = 1000 \<and> VirtualClock_now_ns (VirtualClock_advance clock 500) = 1500)"

definition scenario_with :: "scenario_step list \<Rightarrow> scenario" where
  "scenario_with ss = \<lparr>name = ''test'', seed = 1, steps = ss\<rparr>"

definition test_accepts_well_formed_schedule :: bool where
  "test_accepts_well_formed_schedule \<longleftrightarrow>
     is_ok (ValidatedSchedule_validate (scenario_with
       [\<lparr>at_ns = 0, fault_id = ''pkt-loss'', action = Arm\<rparr>,
        \<lparr>at_ns = 1000, fault_id = ''pkt-loss'', action = Disarm\<rparr>]))"

definition test_rejects_out_of_order_steps :: bool where
  "test_rejects_out_of_order_steps \<longleftrightarrow>
     is_err (ValidatedSchedule_validate (scenario_with
       [\<lparr>at_ns = 1000, fault_id = ''pkt-loss'', action = Arm\<rparr>,
        \<lparr>at_ns = 500, fault_id = ''pkt-loss'', action = Disarm\<rparr>]))"

definition test_rejects_double_arm :: bool where
  "test_rejects_double_arm \<longleftrightarrow>
     is_err (ValidatedSchedule_validate (scenario_with
       [\<lparr>at_ns = 0, fault_id = ''pkt-loss'', action = Arm\<rparr>,
        \<lparr>at_ns = 100, fault_id = ''pkt-loss'', action = Arm\<rparr>]))"

definition test_rejects_disarm_without_arm :: bool where
  "test_rejects_disarm_without_arm \<longleftrightarrow>
     is_err (ValidatedSchedule_validate (scenario_with [\<lparr>at_ns = 0, fault_id = ''pkt-loss'', action = Disarm\<rparr>]))"

definition two_step_schedule :: "(validated_schedule, harness_error) outcome" where
  "two_step_schedule =
     ValidatedSchedule_validate \<lparr>name = ''test'', seed = 1, steps =
       [\<lparr>at_ns = 1000, fault_id = ''a'', action = Arm\<rparr>,
        \<lparr>at_ns = 5000, fault_id = ''a'', action = Disarm\<rparr>]\<rparr>"

definition test_nothing_fires_before_its_time :: bool where
  "test_nothing_fires_before_its_time =
     unwrap_then two_step_schedule (\<lambda>schedule.
       case Scheduler_advance (Scheduler_new schedule 0) 500 of
         (due, sched) \<Rightarrow> due = [] \<and> Scheduler_now_ns sched = 500)"

definition test_step_fires_once_time_reaches_it :: bool where
  "test_step_fires_once_time_reaches_it =
     unwrap_then two_step_schedule (\<lambda>schedule.
       case Scheduler_advance (Scheduler_new schedule 0) 500 of
         (_, sched) \<Rightarrow> (case Scheduler_advance sched 600 of
           (due, _) \<Rightarrow> length due = 1 \<and> fault_id (due ! 0) = ''a''))"

definition test_coalesces_multiple_due_steps_in_one_advance :: bool where
  "test_coalesces_multiple_due_steps_in_one_advance =
     unwrap_then two_step_schedule (\<lambda>schedule.
       case Scheduler_advance (Scheduler_new schedule 0) 10000 of
         (due, sched) \<Rightarrow> length due = 2 \<and> Scheduler_is_finished sched)"

subsection \<open>Random numbers\<close>

fun draws_agree :: "nat \<Rightarrow> deterministic_rng \<Rightarrow> deterministic_rng \<Rightarrow> bool" where
  "draws_agree 0 a b = True"
| "draws_agree (Suc n) a b =
     (case DeterministicRng_next_u64 a of (x, a') \<Rightarrow>
        (case DeterministicRng_next_u64 b of (y, b') \<Rightarrow> x = y \<and> draws_agree n a' b'))"

definition test_same_seed_same_sequence :: bool where
  "test_same_seed_same_sequence =
     draws_agree 1000 (DeterministicRng_from_seed 42) (DeterministicRng_from_seed 42)"

definition test_different_seed_diverges :: bool where
  "test_different_seed_diverges \<longleftrightarrow>
     fst (DeterministicRng_next_u64 (DeterministicRng_from_seed 1))
       \<noteq> fst (DeterministicRng_next_u64 (DeterministicRng_from_seed 2))"

definition test_matches_reference_vector :: bool where
  "test_matches_reference_vector \<longleftrightarrow>
     fst (DeterministicRng_next_u64 (DeterministicRng_from_seed 1234567)) = 6457827717110365317"

text \<open>\<^verbatim>\<open>(0.0..1.0).contains(&f)\<close>.\<close>

definition in_unit_range :: "f64 \<Rightarrow> bool" where
  "in_unit_range f \<longleftrightarrow> (f = Finite 0 \<or> f64_less (Finite 0) f) \<and> f64_less f (Finite 1)"

fun draws_in_unit_range :: "nat \<Rightarrow> deterministic_rng \<Rightarrow> bool" where
  "draws_in_unit_range 0 r = True"
| "draws_in_unit_range (Suc n) r =
     (case DeterministicRng_next_f64 r of (f, r') \<Rightarrow> in_unit_range f \<and> draws_in_unit_range n r')"

definition test_next_f64_stays_in_unit_range :: bool where
  "test_next_f64_stays_in_unit_range = draws_in_unit_range 10000 (DeterministicRng_from_seed 7)"

subsection \<open>Traces\<close>

text \<open>The directory for temporary files and the counter are parameters; the file the first test leaves is
  removed after everything was read.\<close>

definition temp_path :: "string \<Rightarrow> string \<Rightarrow> nat \<Rightarrow> string" where
  "temp_path temp_dir nm n = path_join temp_dir (''blackswan-trace-test-'' @ nm @ ''-'' @ dec_string n @ ''.json'')"

definition test_round_trips_through_disk :: "'w trace_env \<Rightarrow> string \<Rightarrow> nat \<Rightarrow> 'w \<Rightarrow> bool" where
  "test_round_trips_through_disk env temp_dir n w =
     (let path = temp_path temp_dir ''roundtrip'' n;
          trace = Trace_record (Trace_new ''smoke-test'' 42) \<lparr>at_ns = 0, fault_id = ''pkt-loss'', action = Arm\<rparr> 1000
      in case Trace_save env trace path w of
           (saved, w') \<Rightarrow> unwrap_then saved (\<lambda>_. unwrap_then (Trace_load env path w') (\<lambda>loaded.
             scenario_name trace = scenario_name loaded \<and> Trace_matches_schedule trace loaded)))"

definition test_matches_schedule_ignores_wall_time_but_not_seed :: bool where
  "test_matches_schedule_ignores_wall_time_but_not_seed =
     (let step = \<lparr>at_ns = 0, fault_id = ''x'', action = Arm\<rparr>;
          a = Trace_record (Trace_new ''s'' 1) step 100;
          b = Trace_record (Trace_new ''s'' 1) step 999999;
          c = Trace_record (Trace_new ''s'' 2) step 100
      in Trace_matches_schedule a b \<and> \<not> Trace_matches_schedule a c)"

subsection \<open>Runner\<close>

definition counting :: "string \<Rightarrow> counting_injector" where
  "counting i = \<lparr>ci_id = i, ci_armed = False, arm_calls = 0, disarm_calls = 0\<rparr>"

definition counts :: "counting_injector runner \<Rightarrow> string \<Rightarrow> (nat \<times> nat) option" where
  "counts rn f = map_option (\<lambda>i. (arm_calls i, disarm_calls i)) (map_of (rn_injectors rn) f)"

definition test_rejects_schedule_referencing_unknown_fault_id :: bool where
  "test_rejects_schedule_referencing_unknown_fault_id =
     unwrap_then (ValidatedSchedule_validate (scenario_with
         [\<lparr>at_ns = 0, fault_id = ''does-not-exist'', action = Arm\<rparr>])) (\<lambda>schedule.
       is_err (Runner_new schedule ([] :: counting_injector registry) test_ctx))"

definition test_arms_and_disarms_registered_injector_at_the_right_times :: bool where
  "test_arms_and_disarms_registered_injector_at_the_right_times =
     unwrap_then (ValidatedSchedule_validate (scenario_with
         [\<lparr>at_ns = 1000, fault_id = ''pkt-loss'', action = Arm\<rparr>,
          \<lparr>at_ns = 5000, fault_id = ''pkt-loss'', action = Disarm\<rparr>])) (\<lambda>schedule.
       unwrap_then (Runner_new schedule [(''pkt-loss'', counting ''pkt-loss'')] test_ctx) (\<lambda>runner.
         some_then (Runner_run counting_ops (\<lambda>d w. w) runner 500 ()) (\<lambda>(r, runner', w).
           unwrap_then r (\<lambda>trace. counts runner' ''pkt-loss'' = Some (1, 1) \<and> length (events trace) = 2))))"

definition realtime_steps :: "scenario_step list" where
  "realtime_steps = map (\<lambda>i. \<lparr>at_ns = of_nat i * 5000000, fault_id = ''pkt-loss'',
     action = (if i mod 2 = 0 then Arm else Disarm)\<rparr>) [0..<20]"

text \<open>\<^verbatim>\<open>Instant::now\<close> and \<^verbatim>\<open>elapsed\<close> read the clock of the world, in nanoseconds.\<close>

definition test_run_realtime_actually_takes_real_time_unlike_run ::
  "(u64 \<Rightarrow> 'w \<Rightarrow> 'w) \<Rightarrow> ('w \<Rightarrow> nat) \<Rightarrow> 'w \<Rightarrow> bool" where
  "test_run_realtime_actually_takes_real_time_unlike_run sleep clock w =
     unwrap_then (ValidatedSchedule_validate (scenario_with realtime_steps)) (\<lambda>schedule.
       unwrap_then (Runner_new schedule [(''pkt-loss'', counting ''pkt-loss'')] test_ctx) (\<lambda>runner.
         let started = clock w
         in some_then (Runner_run_realtime counting_ops sleep runner 5000000 w) (\<lambda>(r, runner', w').
              unwrap_then r (\<lambda>_. 90000000 \<le> clock w' - started))))"

definition test_drop_disarms_anything_left_armed :: bool where
  "test_drop_disarms_anything_left_armed =
     unwrap_then (ValidatedSchedule_validate (scenario_with
         [\<lparr>at_ns = 0, fault_id = ''pkt-loss'', action = Arm\<rparr>])) (\<lambda>schedule.
       unwrap_then (Runner_new schedule [(''pkt-loss'', counting ''pkt-loss'')] test_ctx) (\<lambda>runner.
         some_then (Runner_run counting_ops (\<lambda>d w. w) runner 1000 ()) (\<lambda>(r, runner', w).
           unwrap_then r (\<lambda>_. counts runner' ''pkt-loss'' = Some (1, 0)
             \<and> map_option snd (counts (fst (Runner_drop counting_ops runner' w)) ''pkt-loss'') = Some 1))))"

subsection \<open>The integration test of determinism\<close>

definition sample_scenario :: scenario where
  "sample_scenario = \<lparr>name = ''pkt-loss-then-clock-skew'', seed = 777, steps =
     [\<lparr>at_ns = 0, fault_id = ''pkt-loss'', action = Arm\<rparr>, \<lparr>at_ns = 2000, fault_id = ''clock-skew'', action = Arm\<rparr>,
      \<lparr>at_ns = 5000, fault_id = ''pkt-loss'', action = Disarm\<rparr>, \<lparr>at_ns = 8000, fault_id = ''clock-skew'', action = Disarm\<rparr>]\<rparr>"

definition step_sizes :: "u64 list" where
  "step_sizes = [300, 900, 1400, 2000, 3000, 5000]"

fun record_due ::
  "profile \<Rightarrow> u64 \<Rightarrow> scenario_step list \<Rightarrow> deterministic_rng \<Rightarrow> trace \<Rightarrow> (trace \<times> deterministic_rng, unit) outcome" where
  "record_due p now [] rng tr = Ok (tr, rng)"
| "record_due p now (step # due) rng tr =
     (case DeterministicRng_gen_range_u64 p rng 0 1000 of
        (Ok jitter, rng') \<Rightarrow> record_due p now due rng' (Trace_record tr step now)
      | (Err e, rng') \<Rightarrow> Err e
      | (Panic m, rng') \<Rightarrow> Panic m)"

partial_function (option) drive ::
  "profile \<Rightarrow> nat \<Rightarrow> scheduler \<Rightarrow> deterministic_rng \<Rightarrow> trace \<Rightarrow> (trace, unit) outcome option" where
  "drive p i scheduler rng tr =
     (if Scheduler_is_finished scheduler then Some (Ok tr)
      else case Scheduler_advance scheduler (step_sizes ! (i mod length step_sizes)) of
        (due, scheduler') \<Rightarrow>
          (case record_due p (Scheduler_now_ns scheduler') due rng tr of
             Ok (tr', rng') \<Rightarrow> drive p (i + 1) scheduler' rng' tr'
           | Err e \<Rightarrow> Some (Err e)
           | Panic m \<Rightarrow> Some (Panic m)))"

definition run_once :: "profile \<Rightarrow> scenario \<Rightarrow> (trace, unit) outcome option" where
  "run_once p sc =
     (case ValidatedSchedule_validate sc of
        Ok schedule \<Rightarrow> drive p 0 (Scheduler_new schedule 0) (DeterministicRng_from_seed (seed sc))
          (Trace_new (ValidatedSchedule_name schedule) (ValidatedSchedule_seed schedule))
      | _ \<Rightarrow> Some (Panic ''well formed scenario''))"

definition test_same_seed_same_scenario_produces_identical_trace :: "profile \<Rightarrow> bool" where
  "test_same_seed_same_scenario_produces_identical_trace p =
     some_then (run_once p sample_scenario) (\<lambda>a. unwrap_then a (\<lambda>trace_a.
       some_then (run_once p sample_scenario) (\<lambda>b. unwrap_then b (\<lambda>trace_b.
         Trace_matches_schedule trace_a trace_b \<and> length (events trace_a) = 4))))"

definition test_recorded_trace_survives_a_round_trip_to_disk :: "profile \<Rightarrow> 'w trace_env \<Rightarrow> string \<Rightarrow> 'w \<Rightarrow> bool" where
  "test_recorded_trace_survives_a_round_trip_to_disk p env temp_dir w =
     some_then (run_once p sample_scenario) (\<lambda>r. unwrap_then r (\<lambda>trace.
       let path = path_join temp_dir ''blackswan-determinism-integration-test.json''
       in case Trace_save env trace path w of
            (saved, w') \<Rightarrow> unwrap_then saved (\<lambda>_. unwrap_then (Trace_load env path w') (\<lambda>replayed.
              Trace_matches_schedule trace replayed))))"

section \<open>The tests pass\<close>

lemma clock_test_passes: "test_virtual_clock_only_moves_when_told"
  by (simp add: test_virtual_clock_only_moves_when_told_def Let_def vclock.now_advance)

lemma schedule_tests_pass:
  "test_accepts_well_formed_schedule" "test_rejects_out_of_order_steps" "test_rejects_double_arm"
  "test_rejects_disarm_without_arm"
  by (simp_all add: test_accepts_well_formed_schedule_def test_rejects_out_of_order_steps_def
      test_rejects_double_arm_def test_rejects_disarm_without_arm_def scenario_with_def
      ValidatedSchedule_validate_def)

lemma scheduler_tests_pass:
  "test_nothing_fires_before_its_time" "test_step_fires_once_time_reaches_it"
  "test_coalesces_multiple_due_steps_in_one_advance"
  by (simp_all add: test_nothing_fires_before_its_time_def test_step_fires_once_time_reaches_it_def
      test_coalesces_multiple_due_steps_in_one_advance_def two_step_schedule_def ValidatedSchedule_validate_def run_eval)

lemma draws_agree_refl: "draws_agree n r r"
  by (induction n arbitrary: r) (simp_all split: prod.split)

lemma draws_in_unit_range_always: "draws_in_unit_range n r"
proof (induction n arbitrary: r)
  case (Suc n)
  then show ?case using next_f64_unit [of r] by (auto simp: in_unit_range_def split: prod.split)
qed simp

lemma rng_tests_pass:
  "test_same_seed_same_sequence" "test_different_seed_diverges" "test_matches_reference_vector"
  "test_next_f64_stays_in_unit_range"
  by (simp_all add: test_same_seed_same_sequence_def draws_agree_refl test_different_seed_diverges_def
      test_matches_reference_vector_def test_next_f64_stays_in_unit_range_def draws_in_unit_range_always
      DeterministicRng_from_seed_def DeterministicRng_next_u64_def Let_def)

lemma disk_test_passes:
  assumes "json_round_trips env" and "read_after_write env"
    and "\<And>t path. is_ok (fst (Trace_save env t path w))"
  shows "test_round_trips_through_disk env temp_dir n w"
proof -
  define path where "path = temp_path temp_dir ''roundtrip'' n"
  define t where
    "t = Trace_record (Trace_new ''smoke-test'' 42) \<lparr>at_ns = 0, fault_id = ''pkt-loss'', action = Arm\<rparr> 1000"
  obtain w' where saved: "Trace_save env t path w = (Ok (), w')"
    using assms(3) [of t path] by (cases "Trace_save env t path w") (auto simp: is_ok_iff)
  from save_load [OF assms(1,2) saved] show ?thesis
    unfolding test_round_trips_through_disk_def Let_def path_def [symmetric] t_def [symmetric] by (simp add: saved)
qed

lemma trace_test_passes: "test_matches_schedule_ignores_wall_time_but_not_seed"
  by (simp add: test_matches_schedule_ignores_wall_time_but_not_seed_def Trace_matches_schedule_def)

lemma runner_tests_pass:
  "test_rejects_schedule_referencing_unknown_fault_id"
  "test_arms_and_disarms_registered_injector_at_the_right_times" "test_drop_disarms_anything_left_armed"
  by (simp_all add: test_rejects_schedule_referencing_unknown_fault_id_def
      test_arms_and_disarms_registered_injector_at_the_right_times_def test_drop_disarms_anything_left_armed_def
      scenario_with_def ValidatedSchedule_validate_def Runner_new_def run_eval counting_def counts_def
      Runner_drop_def Runner_teardown_def)

text \<open>The last step is at 95 ms, so no run in real time can take less.\<close>

lemma realtime_schedule:
  "ValidatedSchedule_validate (scenario_with realtime_steps) = Ok \<lparr>vs_scenario = scenario_with realtime_steps\<rparr>"
  by (simp add: ValidatedSchedule_validate_def scenario_with_def realtime_steps_def upt_rec)

lemma realtime_test_passes:
  assumes "time_passes (counting_ops :: (counting_injector, 'w) injector_ops) sleep clock"
  shows "test_run_realtime_actually_takes_real_time_unlike_run sleep clock (w :: 'w)"
proof -
  let ?vs = "\<lparr>vs_scenario = scenario_with realtime_steps\<rparr>" and ?injs = "[(''pkt-loss'', counting ''pkt-loss'')]"
  let ?rn = "\<lparr>rn_schedule = ?vs, rn_injectors = ?injs, rn_ctx = test_ctx\<rparr>"
  let ?x = "\<lparr>at_ns = 95000000, fault_id = ''pkt-loss'', action = Disarm\<rparr>"
  have steps: "ValidatedSchedule_steps ?vs = realtime_steps" "steps (scenario_with realtime_steps) = realtime_steps"
    by (simp_all add: ValidatedSchedule_steps_def scenario_with_def)
  have new: "Runner_new ?vs ?injs test_ctx = Ok ?rn"
    unfolding Runner_new_Ok steps by (auto simp: realtime_steps_def)
  have wrap: "no_clock_wrap 5000000 realtime_steps"
    by (simp add: no_clock_wrap_def realtime_steps_def upt_rec)
  then have wrap': "no_clock_wrap 5000000 (steps (scenario_with realtime_steps))" by (simp only: steps)
  have never: "never_fails (counting_ops :: (counting_injector, 'w) injector_ops)"
    by (simp add: never_fails_def counting_ops_def CountingInjector_arm_def CountingInjector_disarm_def)
  have pos: "(0 :: u64) < 5000000" by simp
  obtain tr rn' w' where run: "Runner_run_realtime counting_ops sleep ?rn 5000000 w = Some (Ok tr, rn', w')"
    using run_inner_returns [OF new pos, of counting_ops sleep True w] wrap never
    by (auto simp: steps Runner_run_realtime_def is_ok_iff)
  have "map ev_step (events tr) = realtime_steps"
    using run_inner_trace [OF new run [unfolded Runner_run_realtime_def]] steps by simp
  then have all: "ev_step ` set (events tr) = set realtime_steps" by (metis list.set_map)
  have "?x \<in> set realtime_steps" by (simp add: realtime_steps_def upt_rec)
  then obtain e where e: "e \<in> set (events tr)" "ev_step e = ?x" unfolding all [symmetric] by (elim imageE) simp
  note bounds = realtime_event_bounds [OF realtime_schedule new pos wrap' assms run e(1), unfolded e(2)]
  then have "95000000 \<le> unat (wall_ns e)" "clock w + unat (wall_ns e) \<le> clock w'" by simp_all
  then have "90000000 \<le> clock w' - clock w" by linarith
  then show ?thesis
    by (simp add: test_run_realtime_actually_takes_real_time_unlike_run_def realtime_schedule new run)
qed

text \<open>The draws never fail and leave no mark on the trace.\<close>

lemma record_due_Ok:
  "\<exists>rng'. record_due p now due rng tr = Ok (foldl (\<lambda>t x. Trace_record t x now) tr due, rng')"
proof (induction due arbitrary: rng tr)
  case (Cons x due)
  obtain v rng1 where "DeterministicRng_gen_range_u64 p rng 0 1000 = (Ok v :: (u64, unit) outcome, rng1)"
    using gen_range_u64_in_range [of 0 1000 p rng, where 'e = unit] by auto
  then show ?case using Cons.IH [of rng1 "Trace_record tr x now"] by simp
qed simp

lemma drive_done: "Scheduler_is_finished s \<Longrightarrow> drive p i s rng tr = Some (Ok tr)"
  by (subst drive.simps) simp

lemma drive_step:
  assumes "\<not> Scheduler_is_finished s"
    and "Scheduler_advance s (step_sizes ! (i mod length step_sizes)) = (due, s')"
  shows "\<exists>rng'. drive p i s rng tr
    = drive p (Suc i) s' rng' (foldl (\<lambda>t x. Trace_record t x (Scheduler_now_ns s')) tr due)"
proof -
  obtain rng' where "record_due p (Scheduler_now_ns s') due rng tr
      = Ok (foldl (\<lambda>t x. Trace_record t x (Scheduler_now_ns s')) tr due, rng')"
    using record_due_Ok by blast
  with assms show ?thesis by (subst drive.simps) auto
qed

text \<open>The state after each chunk, and the trace the six of them leave.\<close>

abbreviation sample_at :: "u64 \<Rightarrow> nat \<Rightarrow> scheduler" where
  "sample_at now c \<equiv> \<lparr>sched_schedule = \<lparr>vs_scenario = sample_scenario\<rparr>, sched_clock = VirtualClock_new now, cursor = c\<rparr>"

abbreviation sample_step :: "nat \<Rightarrow> scenario_step" where
  "sample_step k \<equiv> steps sample_scenario ! k"

lemma sample_advance:
  "Scheduler_advance (sample_at 0 0) 300 = ([sample_step 0], sample_at 300 1)"
  "Scheduler_advance (sample_at 300 1) 900 = ([], sample_at 1200 1)"
  "Scheduler_advance (sample_at 1200 1) 1400 = ([sample_step 1], sample_at 2600 2)"
  "Scheduler_advance (sample_at 2600 2) 2000 = ([], sample_at 4600 2)"
  "Scheduler_advance (sample_at 4600 2) 3000 = ([sample_step 2], sample_at 7600 3)"
  "Scheduler_advance (sample_at 7600 3) 5000 = ([sample_step 3], sample_at 12600 4)"
  by (simp_all add: run_eval sample_scenario_def)

lemma sample_finished: "Scheduler_is_finished (sample_at now c) \<longleftrightarrow> 4 \<le> c"
  by (simp add: Scheduler_is_finished_def ValidatedSchedule_steps_def sample_scenario_def) linarith

lemma drive_sample_step:
  assumes "Scheduler_advance (sample_at now c) d = (due, sample_at now' c')"
    and "c < 4" and "step_sizes ! (i mod length step_sizes) = d" and "j = Suc i"
  shows "\<exists>rng'. drive p i (sample_at now c) rng tr
    = drive p j (sample_at now' c') rng' (foldl (\<lambda>t x. Trace_record t x now') tr due)"
proof -
  have "\<not> Scheduler_is_finished (sample_at now c)" using assms(2) by (simp add: sample_finished)
  from drive_step [OF this assms(1) [folded assms(3)]] assms(4) show ?thesis
    by (simp add: Scheduler_now_ns_def VirtualClock_now_ns_def VirtualClock_new_def)
qed

lemma drive_sample:
  "drive p 0 (sample_at 0 0) rng tr = Some (Ok (foldl (\<lambda>t (k, now). Trace_record t (sample_step k) now) tr
     [(0, 300), (1, 2600), (2, 7600), (3, 12600)]))"
proof -
  let ?t1 = "Trace_record tr (sample_step 0) 300"
  let ?t3 = "Trace_record ?t1 (sample_step 1) 2600"
  let ?t5 = "Trace_record ?t3 (sample_step 2) 7600"
  let ?t6 = "Trace_record ?t5 (sample_step 3) 12600"
  note go = drive_sample_step [where p = p, OF sample_advance(1)] drive_sample_step [where p = p, OF sample_advance(2)]
    drive_sample_step [where p = p, OF sample_advance(3)] drive_sample_step [where p = p, OF sample_advance(4)]
    drive_sample_step [where p = p, OF sample_advance(5)] drive_sample_step [where p = p, OF sample_advance(6)]
  note go' = go [unfolded foldl.simps]
  have "\<exists>r. drive p 0 (sample_at 0 0) rng tr = drive p 1 (sample_at 300 1) r ?t1"
    by (rule go'(1)) (simp_all add: step_sizes_def)
  then obtain r1 where 1: "drive p 0 (sample_at 0 0) rng tr = drive p 1 (sample_at 300 1) r1 ?t1" ..
  have "\<exists>r. drive p 1 (sample_at 300 1) r1 ?t1 = drive p 2 (sample_at 1200 1) r ?t1"
    by (rule go'(2)) (simp_all add: step_sizes_def)
  then obtain r2 where 2: "drive p 1 (sample_at 300 1) r1 ?t1 = drive p 2 (sample_at 1200 1) r2 ?t1" ..
  have "\<exists>r. drive p 2 (sample_at 1200 1) r2 ?t1 = drive p 3 (sample_at 2600 2) r ?t3"
    by (rule go'(3)) (simp_all add: step_sizes_def)
  then obtain r3 where 3: "drive p 2 (sample_at 1200 1) r2 ?t1 = drive p 3 (sample_at 2600 2) r3 ?t3" ..
  have "\<exists>r. drive p 3 (sample_at 2600 2) r3 ?t3 = drive p 4 (sample_at 4600 2) r ?t3"
    by (rule go'(4)) (simp_all add: step_sizes_def)
  then obtain r4 where 4: "drive p 3 (sample_at 2600 2) r3 ?t3 = drive p 4 (sample_at 4600 2) r4 ?t3" ..
  have "\<exists>r. drive p 4 (sample_at 4600 2) r4 ?t3 = drive p 5 (sample_at 7600 3) r ?t5"
    by (rule go'(5)) (simp_all add: step_sizes_def)
  then obtain r5 where 5: "drive p 4 (sample_at 4600 2) r4 ?t3 = drive p 5 (sample_at 7600 3) r5 ?t5" ..
  have "\<exists>r. drive p 5 (sample_at 7600 3) r5 ?t5 = drive p 6 (sample_at 12600 4) r ?t6"
    by (rule go'(6)) (simp_all add: step_sizes_def)
  then obtain r6 where 6: "drive p 5 (sample_at 7600 3) r5 ?t5 = drive p 6 (sample_at 12600 4) r6 ?t6" ..
  have "Scheduler_is_finished (sample_at 12600 4)" by (simp add: sample_finished)
  from drive_done [OF this, of p 6 r6 ?t6] show ?thesis unfolding 1 2 3 4 5 6 foldl.simps prod.case .
qed

lemma run_once_sample:
  "\<exists>tr. run_once p sample_scenario = Some (Ok tr) \<and> map ev_step (events tr) = steps sample_scenario"
proof -
  have v: "ValidatedSchedule_validate sample_scenario = Ok \<lparr>vs_scenario = sample_scenario\<rparr>"
    by (simp add: ValidatedSchedule_validate_def sample_scenario_def)
  have new: "Scheduler_new \<lparr>vs_scenario = sample_scenario\<rparr> 0 = sample_at 0 0" by (simp add: Scheduler_new_def)
  show ?thesis
    unfolding run_once_def v outcome.case new drive_sample by (simp add: Trace_record_def Trace_new_def sample_scenario_def)
qed

lemma determinism_tests_pass:
  "test_same_seed_same_scenario_produces_identical_trace p"
  "json_round_trips env \<Longrightarrow> read_after_write env \<Longrightarrow> (\<And>t path. is_ok (fst (Trace_save env t path w))) \<Longrightarrow>
     test_recorded_trace_survives_a_round_trip_to_disk p env temp_dir w"
proof -
  obtain tr where tr: "run_once p sample_scenario = Some (Ok tr)" "map ev_step (events tr) = steps sample_scenario"
    using run_once_sample by blast
  from arg_cong [OF tr(2), of length] have "length (events tr) = 4" by (simp add: sample_scenario_def)
  with tr(1) show "test_same_seed_same_scenario_produces_identical_trace p"
    by (simp add: test_same_seed_same_scenario_produces_identical_trace_def Trace_matches_schedule_def)
  assume laws: "json_round_trips env" "read_after_write env" and ok: "\<And>t path. is_ok (fst (Trace_save env t path w))"
  define path where "path = path_join temp_dir ''blackswan-determinism-integration-test.json''"
  obtain w' where saved: "Trace_save env tr path w = (Ok (), w')"
    using ok [of tr path] by (cases "Trace_save env tr path w") (auto simp: is_ok_iff)
  from save_load [OF laws saved] show "test_recorded_trace_survives_a_round_trip_to_disk p env temp_dir w"
    unfolding test_recorded_trace_survives_a_round_trip_to_disk_def Let_def path_def [symmetric]
    by (simp add: tr(1) saved Trace_matches_schedule_def)
qed

end
