(* ===== verification/Spec2Isabelle.thy ===== *)
theory Spec2Isabelle
  imports Rng Fix_System Cli Injector_Config Run_Realtime Bpf_Build Tests_Fix Tests_Replay
begin

text \<open>
  A verified model of blackswan-harness, a deterministic fault injector for order management systems.
  A scenario is a list of timed steps that arm and disarm faults; a runner drives it against fault
  injectors (kernel level: packet loss, corruption and partition by XDP programs, memory pressure by
  cgroups, clock skew by time namespaces; protocol level: a FIX proxy with four semantic faults) and
  records a trace, which a later replay must reproduce. File names below are relative to
  \<^verbatim>\<open>src/crates\<close>.

  \<^bold>\<open>Theories and code.\<close>

  \<^item> \<open>Harness_Prelude\<close>, \<open>Rust_Std\<close>, \<open>Rust_Os\<close>: machine integers, outcomes (value, error or panic), the
    two build profiles, and what the source uses of Rust's library on bytes, numbers, paths and lines.
  \<^item> \<open>Core_Types\<close> (\<^verbatim>\<open>core/src\<close>): errors, clocks, scenarios, messages, and the two traits as records of
    operations. The locale \<open>fault_injector\<close> is the contract of \<^verbatim>\<open>FaultInjector\<close>, extended by
    \<open>idempotent_injector\<close>; \<open>advancing_clock\<close> is what the scheduler needs of a clock.
  \<^item> \<open>Rng\<close>, \<open>Schedule\<close>, \<open>Scheduler\<close>, \<open>Trace_Log\<close>, \<open>Runner\<close> (\<^verbatim>\<open>replay/src\<close>): the generator, validation,
    the cursor over the schedule, traces with saving and loading, and the main loop. What the loop does
    to the injectors is proved in the locale, for every implementation of the trait.
  \<^item> \<open>Run_Registry\<close> and \<open>Run_Realtime\<close> go on from \<open>Runner\<close>: what a run keeps of its map of injectors (the
    locale \<open>configured_injector\<close> adds to the contract that no call changes an injector's configuration),
    and how virtual and real time are bounded.
  \<^item> \<open>Fix_Message\<close>, \<open>Fix_Framing\<close>, \<open>Fix_Adapter\<close>, \<open>Fix_Proxy\<close>, \<open>Fix_Injector\<close>
    (\<^verbatim>\<open>adapters/src/fix\<close>): parsing and rebuilding messages, framing, the four faults (the locale
    \<open>protocol_adapter\<close> is what the proxy relies on), a session as an interleaving of its two relays
    with the flags and the sockets, and the proxy as an injector. \<open>Fix_System\<close> puts the parts together:
    the injector's calls, the accept thread and the relays of session after session, over one shared
    adapter and flag.
  \<^item> \<open>Bpf_Util\<close>, \<open>Xdp_Switch\<close>, \<open>Xdp_Pktloss\<close>, \<open>Xdp_Corrupt\<close>, \<open>Xdp_Partition\<close> (\<^verbatim>\<open>kernel/src\<close> and \<^verbatim>\<open>kernel/bpf\<close>): for
    each fault the Rust injector and the C program it loads, as a function from maps and packet to a
    verdict. \<open>Xdp_Switch\<close> has the life of such an injector next to the traffic; its locales \<open>map_switch\<close>
    and \<open>counting_switch\<close> are what the three have in common, a map that turns the program on and off,
    and for two of them a modulus.
  \<^item> \<open>Cgroup_Mem\<close>, \<open>Time_Skew\<close> (\<^verbatim>\<open>kernel/src/cgroup_mem.rs\<close>, \<^verbatim>\<open>time_skew.rs\<close>): the two injectors that
    work through the file system and through processes.
  \<^item> \<open>Harness_Injectors\<close> (\<^verbatim>\<open>cli/src/config.rs\<close>, \<^verbatim>\<open>build.rs\<close>): the configuration and the injectors built
    from it; \<^verbatim>\<open>Box<dyn FaultInjector>\<close> is a datatype of the six implementations, and its interpretation
    of the contract comes from theirs. \<open>Injector_Config\<close> reads the configuration of a built injector back
    and interprets \<open>configured_injector\<close> on it.
  \<^item> \<open>Bpf_Build\<close> (\<^verbatim>\<open>kernel/build.rs\<close>): the build script that compiles the C programs into the objects the
    XDP injectors load.
  \<^item> \<open>Cli\<close> (\<^verbatim>\<open>cli/src/main.rs\<close>): the two commands.
  \<^item> \<open>Tests_Support\<close>, \<open>Tests_Replay\<close>, \<open>Tests_Fix\<close>: the unit tests in the files of \<^verbatim>\<open>core\<close>, \<^verbatim>\<open>replay\<close> and
    \<^verbatim>\<open>adapters\<close> (their \<^verbatim>\<open>mod tests\<close>) and \<^verbatim>\<open>replay/tests/determinism.rs\<close>, each a truth value over the model that is proved to hold. They tie the
    definitions to the examples the code's authors checked.

  \<^bold>\<open>Conventions.\<close> A method \<^verbatim>\<open>T::m\<close> is the function \<open>T_m\<close>. State is passed explicitly: an operation that
  touches the outside takes the world and returns it updated, next to its outcome and its object. A
  struct is a record, an enum a datatype, an atomic or a flag shared between threads a field of the
  state the threads share. Integers keep their width; \<open>+\<close> on \<^verbatim>\<open>usize\<close> depends on the build profile.
  Text is the list of its bytes.

  \<^bold>\<open>What is a parameter.\<close> The \<^verbatim>\<open>aya\<close> library (\<open>bpf_env\<close>), the file system (\<open>fs_env\<close>), system calls on
  processes (\<open>proc_env\<close>), binding a listener (\<open>bind_fn\<close>), the JSON codec and the trace file
  (\<open>trace_env\<close>), the TOML parser, sleeping, the system clock, and what the build script finds and runs
  (\<open>build_env\<close>). Six facts about them are used, each a named hypothesis where it is needed and each with
  an instance that satisfies it: \<open>maps_work\<close> (a map holds what was written to it), \<open>array_map\<close>
  (a map starts at 0 and keeps its value unless a write succeeds), \<open>json_round_trips\<close>,
  \<open>read_after_write\<close>, \<open>time_passes\<close> (a sleep takes at least its duration) and \<open>names_plain\<close> (a directory
  is read as file names). Sockets are the inputs of the steps of a session.

  \<^bold>\<open>What is shown.\<close>

  \<^item> Determinism: the trace of a successful run is a function of scenario and tick, runs of one schedule
    match, and \<^verbatim>\<open>replay\<close> reproduces what \<^verbatim>\<open>run\<close> saved.
  \<^item> Schedules: validation accepts exactly the well-formed ones and names the first offender; the
    scheduler fires every step once, in order, when due, however time is chopped up; the main loop returns
    for a positive tick unless the 64-bit clock would wrap, and does not for a tick of 0. In real time no
    step fires early or more than a tick late, and the run takes at least the time of its schedule.
  \<^item> Injectors: all of them keep the contract; a run arms and disarms exactly what the schedule says, up
    to a failing step, and keeps the kind and the configuration of every injector; a completed execution
    leaves a fault armed only if disarming it failed.
  \<^item> FIX: parsing inverts encoding, a rebuilt message is valid and differs in one field, framing finds
    exactly the message whatever follows it; the decisions of the four adapters; for every interleaving a
    relay handles its stream in order, without loss or invention, writes whole messages, and is
    transparent from the moment the fault is off and in the direction the fault is not about. Of the whole
    proxy: each of its sessions is such a session, a fault shows only while the injector is armed, and the
    throttle counts on over all sessions and arms.
  \<^item> Kernel programs: the exact sets of packets that are dropped or changed, from the injector's
    configuration to the verdict; that over the whole life of an injector, whatever calls fail, no packet
    is touched while it is not armed, and the losses are exact; and that the partition program reads no byte outside the packet; the
    build compiles each source once and nothing for an unknown target.
  \<^item> cgroups and processes: where the cgroup is created, that the limit is lifted where it was set, and
    that a skewed program starts only inside its configured namespace.
  \<^item> Defects: framing panics on a lone separator, a wrapped length makes a relay spin, a failed load is
    not repaired by a retry, a stopped proxy cannot be restarted, a proxy that has lost its accept thread
    still arms, a process that could not be killed is
    forgotten, a failed run leaves its faults armed when the process exits.

  \<^bold>\<open>Loops.\<close> \<open>run_loop\<close> and \<open>drain\<close>, and \<open>drive\<close> of the determinism test, may run forever and are partial functions into \<open>option\<close>, with \<open>None\<close>
  for not returning. That they return is proved where it holds (\<open>run_terminates\<close>,
  \<open>relay_stream_exact\<close>, \<open>drive_sample\<close>), and that they do not where it fails (\<open>run_diverges\<close>,
  \<open>relay_hangs_on_wrapped_length\<close>). All other loops of the source are structural recursions or have a
  termination proof; \<open>strip_front\<close>, of the library's \<^verbatim>\<open>trim\<close>, counts down the length of its text, which is
  enough (\<open>strip_front_done\<close>).

  \<^bold>\<open>Not modelled.\<close> Argument parsing and error rendering of the binary (\<^verbatim>\<open>clap\<close>, \<^verbatim>\<open>Debug\<close> output); what
  happens inside the kernel besides the three programs; the effect of dropping library handles; a partial
  write on a socket that then fails; a thread that cannot be created; what
  comes between a relay's load of the flag and the decision and write that follow from it, which are one
  step; how long anything but a sleep takes. The crate roots
  (\<^verbatim>\<open>lib.rs\<close>, \<^verbatim>\<open>fix/mod.rs\<close>) hold module declarations and re-exports only. The two tests of
  \<^verbatim>\<open>cli/src/config.rs\<close> check what the \<^verbatim>\<open>toml\<close> parser and the code \<^verbatim>\<open>serde\<close> derives make of a text, which
  is not part of the repository, and the other tests in the \<^verbatim>\<open>tests\<close> directories need a kernel, root or sockets.
  \<^verbatim>\<open>f64\<close> values of the generator are exact numbers with the special values. The host is a 64-bit
  little-endian machine, as the source assumes.
\<close>

section \<open>Instances\<close>

text \<open>
  A command line environment for the instances below: every configuration file reads as \<open>cfg\<close>, the
  world is the log of calls, and the trace codec knows the one trace the demo scenario has.
\<close>

definition demo_trace :: trace where
  "demo_trace = \<lparr>scenario_name = ''demo'', trace_seed = 42,
     events = map (\<lambda>x. \<lparr>ev_step = x, wall_ns = (if at_ns x < 2500 then 2500 else 5000)\<rparr>) demo_steps\<rparr>"

definition demo_trace_env :: "string list trace_env" where
  "demo_trace_env =
     \<lparr>te_to_json = \<lambda>t. if t = demo_trace then Inr ''json'' else Inl ''unknown trace'',
      te_from_json = \<lambda>j. if j = ''json'' then Inr demo_trace else Inl ''unknown text'',
      te_create = \<lambda>p w. (None, w), te_write_all = \<lambda>p c w. (None, w @ [c]), te_read = \<lambda>p w. Inr (last w)\<rparr>"

definition demo_cli :: "config \<Rightarrow> (unit, string list) bpf_env \<Rightarrow> (unit, string list) cli_env" where
  "demo_cli cfg bpf =
     \<lparr>ce_injectors = plain_env\<lparr>ie_bpf := bpf, ie_fs := (ie_fs plain_env)\<lparr>fs_read_to_string := \<lambda>p w. Inr ''toml''\<rparr>\<rparr>,
      ce_trace = demo_trace_env, ce_toml = \<lambda>txt. Inr cfg, ce_sleep = \<lambda>d w. w\<rparr>"

definition demo_config :: "scenario_step list \<Rightarrow> config" where
  "demo_config ss = \<lparr>cfg_name = ''demo'', cfg_seed = 42, cfg_injectors = demo_injectors, cfg_schedule = ss\<rparr>"

lemma demo_trace_env_laws: "json_round_trips demo_trace_env" "read_after_write demo_trace_env"
  by (auto simp: json_round_trips_def read_after_write_def demo_trace_env_def split: if_splits)

lemmas cli_eval =
  execute_scenario_def load_config_def build_scenario_and_injectors_def demo_cli_def demo_config_def
  ValidatedSchedule_validate_def Runner_new_def build_registry_def demo_injectors_def
  Runner_drop_def Runner_teardown_def XdpPacketLossInjector_new_def TimeSkewInjector_is_armed_def run_eval boxed_eval

lemma demo_execute:
  "\<exists>injs w'. execute_scenario (demo_cli (demo_config demo_steps) (ie_bpf plain_env)) path 2500 rt w
     = Some (Returned demo_trace, injs, w')"
  by (simp add: cli_eval demo_steps_def demo_trace_def)

section \<open>The binary as a whole\<close>

text \<open>
  C3: what \<^verbatim>\<open>run\<close> records, \<^verbatim>\<open>replay\<close> reproduces. After a \<^verbatim>\<open>run\<close> that succeeded and saved its
  trace, a \<^verbatim>\<open>replay\<close> of the same configuration file against the saved trace, any time later and with
  any tick, either reports that the run itself failed, or ends successfully with the MATCH line; it
  never reports a mismatch, never refuses the configuration, and never fails to load the trace. The
  codec and the file system are used as documented: decoding inverts encoding, and a file that was
  written holds what was written; both files must not have been changed in between.
\<close>

theorem cli_replay_reproduces_run:
  assumes "json_round_trips (ce_trace env)" and "read_after_write (ce_trace env)"
    and "main_command env (Run config tick (Some out)) w = Some (Returned (), stdout, w1)"
    and "te_read (ce_trace env) out w2 = te_read (ce_trace env) out w1"
    and "fs_read_to_string (ie_fs (ce_injectors env)) config w2 = fs_read_to_string (ie_fs (ce_injectors env)) config w"
    and "main_command env (Replay config tick' out) w2 = Some (res, stdout', w3)"
  shows "(\<exists>e. res = Died (RunFailed e))
     \<or> res = Returned () \<and> last stdout' = ''MATCH: this run reproduces '' @ out"
proof -
  obtain tr injs v u where exec: "execute_scenario env config tick True w = Some (Returned tr, injs, v)"
    and save: "Trace_save (ce_trace env) tr out v = (Ok u, w1)"
    using assms(3) by (auto split: option.splits prod.splits exit_status.splits outcome.splits)
  obtain cfg rn where st: "started env config w cfg rn" using exec by (rule execute_returned_started)
  note trace = execute_trace [OF st exec]
  have "Trace_load (ce_trace env) out w1 = Ok tr" by (rule save_load [OF assms(1,2) save])
  then have load: "Trace_load (ce_trace env) out w2 = Ok tr" using assms(4) by (simp add: Trace_load_def)
  have st2: "started env config w2 cfg rn" using st assms(5) by (simp add: started_def load_config_def)
  obtain res' injs' w' where exec2: "execute_scenario env config tick' False w2 = Some (res', injs', w')"
    using assms(6) load by (auto split: option.splits)
  from st2 exec2 show ?thesis
  proof (cases rule: execute_started_cases)
    case (failed e rn')
    then show ?thesis using assms(6) load exec2 by auto
  next
    case (returned tr2 rn' v' rn'')
    then have "Trace_matches_schedule tr2 tr"
      using execute_trace [OF st2] exec2 trace by (simp add: Trace_matches_schedule_def)
    then show ?thesis using assms(6) load exec2 returned(1) by auto
  qed
qed

theorem cli_replay_reproduces_run_witness:
  "let env = demo_cli (demo_config demo_steps) (ie_bpf plain_env);
       (res, stdout', w3) = the (main_command env (Replay ''c.toml'' 5000 ''t.json'') [''json''])
   in last stdout' = ''MATCH: this run reproduces t.json''"
proof -
  let ?env = "demo_cli (demo_config demo_steps) (ie_bpf plain_env)"
  have laws: "json_round_trips (ce_trace ?env)" "read_after_write (ce_trace ?env)"
    using demo_trace_env_laws by (simp_all add: demo_cli_def)
  obtain injs w' where exec: "execute_scenario ?env ''c.toml'' 2500 True [] = Some (Returned demo_trace, injs, w')"
    using demo_execute by blast
  have run: "main_command ?env (Run ''c.toml'' 2500 (Some ''t.json'')) []
      = Some (Returned (), print_trace_summary demo_trace @ [''trace saved to '' @ ''t.json''], w' @ [''json''])"
    using exec by (simp add: Trace_save_def demo_cli_def demo_trace_env_def)
  have same: "te_read (ce_trace ?env) ''t.json'' [''json''] = te_read (ce_trace ?env) ''t.json'' (w' @ [''json''])"
    by (simp add: demo_cli_def demo_trace_env_def)
  obtain stdout' w3 where replay: "main_command ?env (Replay ''c.toml'' 5000 ''t.json'') [''json'']
      = Some (Returned (), stdout', w3)"
    by (simp add: cli_eval Trace_load_def demo_trace_env_def demo_trace_def demo_steps_def Trace_matches_schedule_def)
  have "fs_read_to_string (ie_fs (ce_injectors ?env)) ''c.toml'' [''json'']
      = fs_read_to_string (ie_fs (ce_injectors ?env)) ''c.toml'' []" by (simp add: demo_cli_def)
  from cli_replay_reproduces_run [OF laws run same this replay] show ?thesis
    unfolding Let_def replay by simp
qed

text \<open>
  C33: a command that ends because of its input has done nothing: when the process dies with any
  message other than a failed run, a failed save or a mismatch, that is because the configuration or
  the baseline could not be read, or did not parse, validate or name its injectors, then nothing was
  printed to standard output and the world is untouched, no fault having been armed.
\<close>

theorem cli_refusal_touches_nothing:
  assumes "main_command env cmd w = Some (Died m, stdout, w')"
    and "\<And>e. m \<noteq> RunFailed e" and "\<And>e. m \<noteq> SavingTrace e" and "\<And>p. m \<noteq> Mismatch p"
  shows "w' = w \<and> stdout = []"
proof (cases cmd)
  case (Run config tick trace_out)
  with assms obtain injs where exec: "execute_scenario env config tick True w = Some (Died m, injs, w')"
    and "stdout = []"
    by (auto split: option.splits prod.splits exit_status.splits outcome.splits)
  with execute_refused_world [OF exec assms(2)] show ?thesis by simp
next
  case (Replay config tick against)
  with assms have "stdout = [] \<and> (w' = w
      \<or> (\<exists>injs. execute_scenario env config tick False w = Some (Died m, injs, w')))"
    by (auto split: option.splits prod.splits exit_status.splits outcome.splits if_splits)
  then show ?thesis by (auto dest: execute_refused_world [OF _ assms(2)])
qed

theorem cli_refusal_touches_nothing_witness:
  "let env = demo_cli (demo_config [\<lparr>at_ns = 5, fault_id = ''skew'', action = Disarm\<rparr>]) (ie_bpf plain_env);
       (res, stdout, w') = the (main_command env (Run ''c.toml'' 1000 None) [''before''])
   in w' = [''before''] \<and> stdout = []"
proof -
  let ?env = "demo_cli (demo_config [\<lparr>at_ns = 5, fault_id = ''skew'', action = Disarm\<rparr>]) (ie_bpf plain_env)"
  obtain e stdout w' where run: "main_command ?env (Run ''c.toml'' 1000 None) [''before'']
      = Some (Died (InvalidScenarioMsg e), stdout, w')"
    by (simp add: cli_eval)
  from cli_refusal_touches_nothing [OF run] show ?thesis unfolding Let_def run by simp
qed

text \<open>
  C20: a scenario that was executed to the end is cleaned up. When \<^verbatim>\<open>execute_scenario\<close> returns its
  trace, the runner has been dropped and has torn down the faults; a fault that is still armed then is
  one whose last step in the schedule is an arm, and the one attempt to disarm it failed.
\<close>

theorem cli_leftover_means_disarm_failed:
  assumes "execute_scenario env path tick rt w = Some (Returned tr, injs, w')"
    and "f \<in> armed_ids (boxed_ops (ce_injectors env)) injs"
  shows "\<exists>cfg i i' e v v'. load_config env path w = Returned cfg
     \<and> actions_of f (cfg_schedule cfg) \<noteq> [] \<and> last (actions_of f (cfg_schedule cfg)) = Arm
     \<and> map_of injs f = Some i' \<and> op_disarm (boxed_ops (ce_injectors env)) i v = (Err e, i', v')"
proof -
  let ?ops = "boxed_ops (ce_injectors env)"
  obtain cfg rn where st: "started env path w cfg rn" using assms(1) by (rule execute_returned_started)
  note new = st [unfolded started_def]
  from st assms(1) obtain rn' w1 rn'' where
    run: "Runner_run_inner ?ops (ce_sleep env) rn tick rt w = Some (Ok tr, rn', w1)"
    and drop: "Runner_drop ?ops rn' w1 = (rn'', w')" and injs: "injs = rn_injectors rn''"
    by (auto elim: execute_started_cases)
  obtain r where "Runner_teardown ?ops rn' w1 = (r, rn'', w')"
    using drop by (cases "Runner_teardown ?ops rn' w1") (simp add: Runner_drop_def)
  note tear = boxed.teardown_spec [OF this]
  obtain i' where i': "map_of injs f = Some i'" "op_is_armed ?ops i'" using assms(2) by (auto simp: armed_ids_def)
  obtain i where i: "map_of (rn_injectors rn') f = Some i" "torn_down ?ops (r = Ok ()) (f, i) (f, i')"
    using boxed.torn_down_map_of [OF tear(1)] i'(1) injs by blast
  then have "f \<in> armed_ids ?ops (rn_injectors rn')"
    using boxed.torn_down_never_arms [OF i(2)] i'(2) by (auto simp: armed_ids_def)
  then have "f \<in> armed_after {} (cfg_schedule cfg)"
    using boxed.run_inner_ok [OF _ run] new by (auto simp: ValidatedSchedule_steps_def)
  moreover obtain v q v' where dis: "op_disarm ?ops i v = (q, i', v')"
    using i(2) i'(2) boxed.torn_down_never_arms [OF i(2)] by (auto simp: torn_down_def)
  moreover obtain e where "q = Err e"
    using dis i'(2) by (cases q) (auto simp: boxed.disarm_panic dest: boxed.disarm_ok)
  ultimately show ?thesis using new i'(1) by (auto simp: armed_after_last split: if_splits)
qed

text \<open>A BPF library for the instance: everything works but writing a 0, so nothing can be disarmed.\<close>

definition stuck_bpf :: "(unit, string list) bpf_env" where
  "stuck_bpf = \<lparr>be_load = \<lambda>obj w. (Inr (), w), be_program = \<lambda>h p. Some None, be_prog_load = \<lambda>h p w. (None, w),
     be_attach = \<lambda>h p iface w. (None, w), be_map = \<lambda>h m. Some None,
     be_set = \<lambda>h m v w. if v = U32 0 then (Some ''EPERM'', w) else (None, w @ [''set '' @ m]), be_get = \<lambda>h m w. U32 0\<rparr>"

theorem cli_leftover_means_disarm_failed_witness:
  "let env = demo_cli (demo_config [\<lparr>at_ns = 5, fault_id = ''loss'', action = Arm\<rparr>]) stuck_bpf;
       (res, injs, w') = the (execute_scenario env ''c.toml'' 1000 False [])
   in ''loss'' \<in> armed_ids (boxed_ops (ce_injectors env)) injs
      \<and> (\<exists>i i' e v v'. op_disarm (boxed_ops (ce_injectors env)) i v = (Err e, i', v'))"
proof -
  let ?env = "demo_cli (demo_config [\<lparr>at_ns = 5, fault_id = ''loss'', action = Arm\<rparr>]) stuck_bpf"
  obtain tr injs w' where run: "execute_scenario ?env ''c.toml'' 1000 False [] = Some (Returned tr, injs, w')"
    and armed: "''loss'' \<in> armed_ids (boxed_ops (ce_injectors ?env)) injs"
    by (simp add: cli_eval pktloss_defs stuck_bpf_def load_and_attach_def set_u32_map_def set_map_def armed_ids_def)
  from cli_leftover_means_disarm_failed [OF run armed] armed show ?thesis
    unfolding Let_def run option.sel prod.case by blast
qed



end
